theory Spec2Isabelle
  imports Complex_Main "HOL-Library.Word"
begin

section \<open>Memory model\<close>

text \<open>
  The kernels of \<^verbatim>\<open>Kokkos_DefaultRelaxationKernelOps.hpp\<close> are structs of raw pointers
  with one member function \<^verbatim>\<open>execute\<close>.  The template parameter \<^verbatim>\<open>Scalar\<close> is modelled
  as an arbitrary field \<open>'a\<close> with exact arithmetic (rounding is not modelled), the
  template parameter \<^verbatim>\<open>Ordinal\<close> as \<open>int\<close> (every C++ integer type embeds into it), and
  \<^verbatim>\<open>size_t\<close> as a 64-bit word, so that \<^verbatim>\<open>%\<close>, \<^verbatim>\<open>/\<close>, \<^verbatim>\<open>-\<close>, \<^verbatim>\<open>*\<close> and \<^verbatim>\<open>++\<close> on it wrap as
  in the source.

  All \<^verbatim>\<open>Scalar\<close> arrays (\<^verbatim>\<open>vals\<close>, \<^verbatim>\<open>diag\<close>, \<^verbatim>\<open>x\<close>, \<^verbatim>\<open>x0\<close>, \<^verbatim>\<open>b\<close> and the rows of
  \<^verbatim>\<open>vals_beg\<close>) live in one store, a partial map from element addresses to values, so
  that they may alias; a \<^verbatim>\<open>Scalar*\<close> is an address.  The arrays of other element types
  (\<^verbatim>\<open>offsets\<close>, \<^verbatim>\<open>inds\<close>, \<^verbatim>\<open>numEntries\<close>, \<^verbatim>\<open>inds_beg\<close>, \<^verbatim>\<open>vals_beg\<close>) are never written by
  any kernel and are lists.  Every access outside an array, every access to an address
  that is not allocated, the remainder by zero and the division by zero are undefined
  behaviour in the source; here they make \<^verbatim>\<open>execute\<close> return \<open>None\<close>.
\<close>

type_synonym size_t = "64 word"

type_synonym 'a heap = "nat \<Rightarrow> 'a option"

text \<open>\<^verbatim>\<open>p[k]\<close> for a read-only array of non-scalar elements and a \<^verbatim>\<open>size_t\<close> index.\<close>

definition rd :: "'b list \<Rightarrow> size_t \<Rightarrow> 'b option" where
  "rd xs k = (if unat k < length xs then Some (xs ! unat k) else None)"

text \<open>\<^verbatim>\<open>p[k]\<close> for a scalar pointer and a \<^verbatim>\<open>size_t\<close> index.\<close>

definition ld :: "'a heap \<Rightarrow> nat \<Rightarrow> size_t \<Rightarrow> 'a option" where
  "ld h p k = h (p + unat k)"

text \<open>\<^verbatim>\<open>p[c]\<close> for a scalar pointer and an \<^verbatim>\<open>Ordinal\<close> index, which may be negative.\<close>

definition ldo :: "'a heap \<Rightarrow> nat \<Rightarrow> int \<Rightarrow> 'a option" where
  "ldo h p c = (if int p + c < 0 then None else h (nat (int p + c)))"

text \<open>\<^verbatim>\<open>*a = v\<close> for a scalar address.\<close>

definition st :: "'a heap \<Rightarrow> nat \<Rightarrow> 'a \<Rightarrow> 'a heap option" where
  "st h a v = (if h a = None then None else Some (h(a \<mapsto> v)))"

section \<open>The kernel structs\<close>

record ExtractDiagonalOp1 =
  offsets :: "size_t list"
  inds :: "int list"
  vals :: nat
  diag :: nat
  numRows :: size_t

record ExtractDiagonalOp2 =
  inds_beg :: "int list list"
  vals_beg :: "nat list"
  numEntries :: "size_t list"
  diag :: nat
  numRows :: size_t

record 'a DefaultJacobiOp1 =
  offsets :: "size_t list"
  inds :: "int list"
  vals :: nat
  diag :: nat
  numRows :: size_t
  x :: nat
  x0 :: nat
  b :: nat
  damping_factor :: 'a
  xstride :: size_t
  bstride :: size_t

record 'a DefaultJacobiOp2 =
  inds_beg :: "int list list"
  vals_beg :: "nat list"
  numEntries :: "size_t list"
  diag :: nat
  numRows :: size_t
  x :: nat
  x0 :: nat
  b :: nat
  damping_factor :: 'a
  xstride :: size_t
  bstride :: size_t

record 'a DefaultFineGrainHybridGaussSeidelOp1 =
  offsets :: "size_t list"
  inds :: "int list"
  vals :: nat
  diag :: nat
  numRows :: size_t
  x :: nat
  b :: nat
  damping_factor :: 'a
  xstride :: size_t
  bstride :: size_t

record 'a DefaultFineGrainHybridGaussSeidelOp2 =
  inds_beg :: "int list list"
  vals_beg :: "nat list"
  numEntries :: "size_t list"
  diag :: nat
  numRows :: size_t
  x :: nat
  b :: nat
  damping_factor :: 'a
  xstride :: size_t
  bstride :: size_t

section \<open>Diagonal extraction\<close>

text \<open>
  The loop of \<^verbatim>\<open>ExtractDiagonalOp1::execute\<close>:
  \<^verbatim>\<open>for (c = offsets[row]; c < offsets[row+1]; c++)
     if (row == (size_t)inds[c]) { diag[row] = vals[c]; break; }\<close>
  from the counter value \<open>c\<close> on.  The bound \<^verbatim>\<open>offsets[row+1]\<close> is read at every test,
  as in the source.
\<close>

function extract_loop1 ::
  "size_t list \<Rightarrow> int list \<Rightarrow> nat \<Rightarrow> nat \<Rightarrow> 'a heap \<Rightarrow> size_t \<Rightarrow> size_t \<Rightarrow> 'a heap option"
where
  "extract_loop1 offs is vs dg h row c =
     (case rd offs (row + 1) of
        None \<Rightarrow> None
      | Some hi \<Rightarrow>
          if c < hi then
            (case rd is c of
               None \<Rightarrow> None
             | Some ind \<Rightarrow>
                 if row = word_of_int ind then
                   (case ld h vs c of
                      None \<Rightarrow> None
                    | Some v \<Rightarrow> st h (dg + unat row) v)
                 else extract_loop1 offs is vs dg h row (c + 1))
          else Some h)"
  by pat_completeness auto

lemma unat_inc_less: "(c :: size_t) < hi \<Longrightarrow> unat (c + 1) = Suc (unat c)"
  by unat_arith

termination extract_loop1
  by (relation "measure (\<lambda>(offs, is, vs, dg, h, row, c).
        case rd offs (row + 1) of None \<Rightarrow> 0 | Some hi \<Rightarrow> unat hi - unat c)")
     (auto simp: unat_inc_less word_less_nat_alt)

declare extract_loop1.simps [simp del]

definition ExtractDiagonalOp1_execute ::
  "ExtractDiagonalOp1 \<Rightarrow> 'a heap \<Rightarrow> size_t \<Rightarrow> 'a heap option"
where
  "ExtractDiagonalOp1_execute op h row =
     (case rd (ExtractDiagonalOp1.offsets op) row of
        None \<Rightarrow> None
      | Some lo \<Rightarrow>
          extract_loop1 (ExtractDiagonalOp1.offsets op) (ExtractDiagonalOp1.inds op)
            (ExtractDiagonalOp1.vals op) (ExtractDiagonalOp1.diag op) h row lo)"

text \<open>
  The loop of \<^verbatim>\<open>ExtractDiagonalOp2::execute\<close>:
  \<^verbatim>\<open>for (j = 0; j < numEntries[row]; j++)
     if (row == (size_t)curind[j]) { diag[row] = curval[j]; break; }\<close>
\<close>

function extract_loop2 ::
  "size_t list \<Rightarrow> int list \<Rightarrow> nat \<Rightarrow> nat \<Rightarrow> 'a heap \<Rightarrow> size_t \<Rightarrow> size_t \<Rightarrow> 'a heap option"
where
  "extract_loop2 ne curind curval dg h row j =
     (case rd ne row of
        None \<Rightarrow> None
      | Some n \<Rightarrow>
          if j < n then
            (case rd curind j of
               None \<Rightarrow> None
             | Some ind \<Rightarrow>
                 if row = word_of_int ind then
                   (case ld h curval j of
                      None \<Rightarrow> None
                    | Some v \<Rightarrow> st h (dg + unat row) v)
                 else extract_loop2 ne curind curval dg h row (j + 1))
          else Some h)"
  by pat_completeness auto

termination extract_loop2
  by (relation "measure (\<lambda>(ne, curind, curval, dg, h, row, j).
        case rd ne row of None \<Rightarrow> 0 | Some n \<Rightarrow> unat n - unat j)")
     (auto simp: unat_inc_less word_less_nat_alt)

declare extract_loop2.simps [simp del]

definition ExtractDiagonalOp2_execute ::
  "ExtractDiagonalOp2 \<Rightarrow> 'a heap \<Rightarrow> size_t \<Rightarrow> 'a heap option"
where
  "ExtractDiagonalOp2_execute op h row =
     (case rd (ExtractDiagonalOp2.vals_beg op) row of
        None \<Rightarrow> None
      | Some curval \<Rightarrow>
          (case rd (ExtractDiagonalOp2.inds_beg op) row of
             None \<Rightarrow> None
           | Some curind \<Rightarrow>
               extract_loop2 (ExtractDiagonalOp2.numEntries op) curind curval
                 (ExtractDiagonalOp2.diag op) h row 0))"

section \<open>Jacobi and Gauss-Seidel kernels\<close>

text \<open>
  The loop shared by \<^verbatim>\<open>DefaultJacobiOp1::execute\<close> (with \<open>xp\<close> the column \<^verbatim>\<open>x0j\<close>) and
  \<^verbatim>\<open>DefaultFineGrainHybridGaussSeidelOp1::execute\<close> (with \<open>xp\<close> the column \<^verbatim>\<open>xj\<close>):
  \<^verbatim>\<open>for (c = offsets[row]; c < offsets[row+1]; c++) tmp -= vals[c] * xp[inds[c]];\<close>
  from the counter value \<open>c\<close> and the accumulator \<open>tmp\<close> on.
\<close>

function residual_loop1 ::
  "size_t list \<Rightarrow> int list \<Rightarrow> nat \<Rightarrow> 'a::field heap \<Rightarrow> nat \<Rightarrow> size_t \<Rightarrow> size_t \<Rightarrow> 'a \<Rightarrow> 'a option"
where
  "residual_loop1 offs is vs h xp row c tmp =
     (case rd offs (row + 1) of
        None \<Rightarrow> None
      | Some hi \<Rightarrow>
          if c < hi then
            (case ld h vs c of
               None \<Rightarrow> None
             | Some v \<Rightarrow>
                 (case rd is c of
                    None \<Rightarrow> None
                  | Some ind \<Rightarrow>
                      (case ldo h xp ind of
                         None \<Rightarrow> None
                       | Some xv \<Rightarrow> residual_loop1 offs is vs h xp row (c + 1) (tmp - v * xv))))
          else Some tmp)"
  by pat_completeness auto

termination residual_loop1
  by (relation "measure (\<lambda>(offs, is, vs, h, xp, row, c, tmp).
        case rd offs (row + 1) of None \<Rightarrow> 0 | Some hi \<Rightarrow> unat hi - unat c)")
     (auto simp: unat_inc_less word_less_nat_alt)

declare residual_loop1.simps [simp del]

text \<open>
  The loop shared by \<^verbatim>\<open>DefaultJacobiOp2::execute\<close> and
  \<^verbatim>\<open>DefaultFineGrainHybridGaussSeidelOp2::execute\<close>:
  \<^verbatim>\<open>for (j = 0; j != numEntries[row]; ++j) tmp -= curval[j] * xp[curind[j]];\<close>
\<close>

function residual_loop2 ::
  "size_t list \<Rightarrow> int list \<Rightarrow> nat \<Rightarrow> 'a::field heap \<Rightarrow> nat \<Rightarrow> size_t \<Rightarrow> size_t \<Rightarrow> 'a \<Rightarrow> 'a option"
where
  "residual_loop2 ne curind curval h xp row j tmp =
     (case rd ne row of
        None \<Rightarrow> None
      | Some n \<Rightarrow>
          if j \<noteq> n then
            (case ld h curval j of
               None \<Rightarrow> None
             | Some v \<Rightarrow>
                 (case rd curind j of
                    None \<Rightarrow> None
                  | Some ind \<Rightarrow>
                      (case ldo h xp ind of
                         None \<Rightarrow> None
                       | Some xv \<Rightarrow> residual_loop2 ne curind curval h xp row (j + 1) (tmp - v * xv))))
          else Some tmp)"
  by pat_completeness auto

lemma unat_dec_less: "(w :: size_t) \<noteq> 0 \<Longrightarrow> unat (w - 1) < unat w"
  by (simp add: unat_minus_one unat_gt_0)

lemma unat_diff_inc: "(j :: size_t) \<noteq> n \<Longrightarrow> unat (n - (j + 1)) < unat (n - j)"
proof -
  assume "j \<noteq> n"
  then have nz: "n - j \<noteq> 0" by simp
  have eq: "n - (j + 1) = (n - j) - 1" by simp
  from nz have "unat ((n - j) - 1) < unat (n - j)"
    by (rule unat_dec_less)
  then show ?thesis by (simp only: eq)
qed

termination residual_loop2
  by (relation "measure (\<lambda>(ne, curind, curval, h, xp, row, j, tmp).
        case rd ne row of None \<Rightarrow> 0 | Some n \<Rightarrow> unat (n - j))")
     (auto simp: unat_diff_inc)

declare residual_loop2.simps [simp del]

definition DefaultJacobiOp1_execute ::
  "'a::field DefaultJacobiOp1 \<Rightarrow> 'a heap \<Rightarrow> size_t \<Rightarrow> 'a heap option"
where
  "DefaultJacobiOp1_execute op h i =
     (if DefaultJacobiOp1.numRows op = 0 then None
      else
        let row = i mod DefaultJacobiOp1.numRows op;
            rhs = (i - row) div DefaultJacobiOp1.numRows op;
            xj = DefaultJacobiOp1.x op + unat (rhs * DefaultJacobiOp1.xstride op);
            x0j = DefaultJacobiOp1.x0 op + unat (rhs * DefaultJacobiOp1.xstride op);
            bj = DefaultJacobiOp1.b op + unat (rhs * DefaultJacobiOp1.bstride op)
        in
          (case ld h bj row of
             None \<Rightarrow> None
           | Some tmp0 \<Rightarrow>
          (case rd (DefaultJacobiOp1.offsets op) row of
             None \<Rightarrow> None
           | Some lo \<Rightarrow>
          (case residual_loop1 (DefaultJacobiOp1.offsets op) (DefaultJacobiOp1.inds op)
                  (DefaultJacobiOp1.vals op) h x0j row lo tmp0 of
             None \<Rightarrow> None
           | Some tmp \<Rightarrow>
          (case ld h x0j row of
             None \<Rightarrow> None
           | Some x0v \<Rightarrow>
          (case ld h (DefaultJacobiOp1.diag op) row of
             None \<Rightarrow> None
           | Some d \<Rightarrow>
               if d = 0 then None
               else st h (xj + unat row)
                      (x0v + DefaultJacobiOp1.damping_factor op * tmp / d)))))))"

definition DefaultJacobiOp2_execute ::
  "'a::field DefaultJacobiOp2 \<Rightarrow> 'a heap \<Rightarrow> size_t \<Rightarrow> 'a heap option"
where
  "DefaultJacobiOp2_execute op h i =
     (if DefaultJacobiOp2.numRows op = 0 then None
      else
        let row = i mod DefaultJacobiOp2.numRows op;
            rhs = (i - row) div DefaultJacobiOp2.numRows op;
            xj = DefaultJacobiOp2.x op + unat (rhs * DefaultJacobiOp2.xstride op);
            x0j = DefaultJacobiOp2.x0 op + unat (rhs * DefaultJacobiOp2.xstride op);
            bj = DefaultJacobiOp2.b op + unat (rhs * DefaultJacobiOp2.bstride op)
        in
          (case ld h bj row of
             None \<Rightarrow> None
           | Some tmp0 \<Rightarrow>
          (case rd (DefaultJacobiOp2.vals_beg op) row of
             None \<Rightarrow> None
           | Some curval \<Rightarrow>
          (case rd (DefaultJacobiOp2.inds_beg op) row of
             None \<Rightarrow> None
           | Some curind \<Rightarrow>
          (case residual_loop2 (DefaultJacobiOp2.numEntries op) curind curval h x0j row 0 tmp0 of
             None \<Rightarrow> None
           | Some tmp \<Rightarrow>
          (case ld h x0j row of
             None \<Rightarrow> None
           | Some x0v \<Rightarrow>
          (case ld h (DefaultJacobiOp2.diag op) row of
             None \<Rightarrow> None
           | Some d \<Rightarrow>
               if d = 0 then None
               else st h (xj + unat row)
                      (x0v + DefaultJacobiOp2.damping_factor op * tmp / d))))))))"

definition DefaultFineGrainHybridGaussSeidelOp1_execute ::
  "'a::field DefaultFineGrainHybridGaussSeidelOp1 \<Rightarrow> 'a heap \<Rightarrow> size_t \<Rightarrow> 'a heap option"
where
  "DefaultFineGrainHybridGaussSeidelOp1_execute op h i =
     (if DefaultFineGrainHybridGaussSeidelOp1.numRows op = 0 then None
      else
        let row = i mod DefaultFineGrainHybridGaussSeidelOp1.numRows op;
            rhs = (i - row) div DefaultFineGrainHybridGaussSeidelOp1.numRows op;
            xj = DefaultFineGrainHybridGaussSeidelOp1.x op
                   + unat (rhs * DefaultFineGrainHybridGaussSeidelOp1.xstride op);
            bj = DefaultFineGrainHybridGaussSeidelOp1.b op
                   + unat (rhs * DefaultFineGrainHybridGaussSeidelOp1.bstride op)
        in
          (case ld h bj row of
             None \<Rightarrow> None
           | Some tmp0 \<Rightarrow>
          (case rd (DefaultFineGrainHybridGaussSeidelOp1.offsets op) row of
             None \<Rightarrow> None
           | Some lo \<Rightarrow>
          (case residual_loop1 (DefaultFineGrainHybridGaussSeidelOp1.offsets op)
                  (DefaultFineGrainHybridGaussSeidelOp1.inds op)
                  (DefaultFineGrainHybridGaussSeidelOp1.vals op) h xj row lo tmp0 of
             None \<Rightarrow> None
           | Some tmp \<Rightarrow>
          (case ld h xj row of
             None \<Rightarrow> None
           | Some xv \<Rightarrow>
          (case ld h (DefaultFineGrainHybridGaussSeidelOp1.diag op) row of
             None \<Rightarrow> None
           | Some d \<Rightarrow>
               if d = 0 then None
               else st h (xj + unat row)
                      (xv + DefaultFineGrainHybridGaussSeidelOp1.damping_factor op * tmp / d)))))))"

definition DefaultFineGrainHybridGaussSeidelOp2_execute ::
  "'a::field DefaultFineGrainHybridGaussSeidelOp2 \<Rightarrow> 'a heap \<Rightarrow> size_t \<Rightarrow> 'a heap option"
where
  "DefaultFineGrainHybridGaussSeidelOp2_execute op h i =
     (if DefaultFineGrainHybridGaussSeidelOp2.numRows op = 0 then None
      else
        let row = i mod DefaultFineGrainHybridGaussSeidelOp2.numRows op;
            rhs = (i - row) div DefaultFineGrainHybridGaussSeidelOp2.numRows op;
            xj = DefaultFineGrainHybridGaussSeidelOp2.x op
                   + unat (rhs * DefaultFineGrainHybridGaussSeidelOp2.xstride op);
            bj = DefaultFineGrainHybridGaussSeidelOp2.b op
                   + unat (rhs * DefaultFineGrainHybridGaussSeidelOp2.bstride op)
        in
          (case ld h bj row of
             None \<Rightarrow> None
           | Some tmp0 \<Rightarrow>
          (case rd (DefaultFineGrainHybridGaussSeidelOp2.vals_beg op) row of
             None \<Rightarrow> None
           | Some curval \<Rightarrow>
          (case rd (DefaultFineGrainHybridGaussSeidelOp2.inds_beg op) row of
             None \<Rightarrow> None
           | Some curind \<Rightarrow>
          (case residual_loop2 (DefaultFineGrainHybridGaussSeidelOp2.numEntries op)
                  curind curval h xj row 0 tmp0 of
             None \<Rightarrow> None
           | Some tmp \<Rightarrow>
          (case ld h xj row of
             None \<Rightarrow> None
           | Some xv \<Rightarrow>
          (case ld h (DefaultFineGrainHybridGaussSeidelOp2.diag op) row of
             None \<Rightarrow> None
           | Some d \<Rightarrow>
               if d = 0 then None
               else st h (xj + unat row)
                      (xv + DefaultFineGrainHybridGaussSeidelOp2.damping_factor op * tmp / d))))))))"

section \<open>The sweep driver\<close>

text \<open>
  Modelled from the spec: the parallel-for engine that calls \<^verbatim>\<open>execute\<close> for every index
  of a range is not part of the source file.  The spec (sections 5 and 6) leaves order
  and concurrency to the caller; a sweep is modelled here as the sequential execution of
  \<^verbatim>\<open>execute\<close> along a given list of indices, undefined as soon as one call is.
\<close>

fun sweep :: "('s \<Rightarrow> size_t \<Rightarrow> 's option) \<Rightarrow> size_t list \<Rightarrow> 's \<Rightarrow> 's option" where
  "sweep f [] h = Some h"
| "sweep f (i # is) h = (case f h i of None \<Rightarrow> None | Some h' \<Rightarrow> sweep f is h')"

text \<open>The index range \<open>[0, n)\<close> in increasing order.\<close>

definition flat_range :: "nat \<Rightarrow> size_t list" where
  "flat_range n = map of_nat [0..<n]"

section \<open>Vocabulary of the specification\<close>

text \<open>
  The entries \<open>(c, v)\<close> of a row, in storage order: the positions \<open>lo..<hi\<close> of an index
  array \<open>is\<close> and of the value array at address \<open>vs\<close>.
\<close>

definition row_entries :: "int list \<Rightarrow> nat \<Rightarrow> 'a heap \<Rightarrow> nat \<Rightarrow> nat \<Rightarrow> (int \<times> 'a) list" where
  "row_entries is vs h lo hi = map (\<lambda>k. (is ! k, the (h (vs + k)))) [lo..<hi]"

text \<open>Format A: row \<open>r\<close> owns the positions \<open>offsets[r]..<offsets[r+1]\<close>.\<close>

definition entries1 ::
  "size_t list \<Rightarrow> int list \<Rightarrow> nat \<Rightarrow> 'a heap \<Rightarrow> size_t \<Rightarrow> (int \<times> 'a) list"
where
  "entries1 offs is vs h r =
     row_entries is vs h (unat (offs ! unat r)) (unat (offs ! unat (r + 1)))"

text \<open>Format B: row \<open>r\<close> owns the first \<open>numEntries[r]\<close> positions of its own arrays.\<close>

definition entries2 ::
  "int list list \<Rightarrow> nat list \<Rightarrow> size_t list \<Rightarrow> 'a heap \<Rightarrow> size_t \<Rightarrow> (int \<times> 'a) list"
where
  "entries2 ib vb ne h r =
     row_entries (ib ! unat r) (vb ! unat r) h 0 (unat (ne ! unat r))"

text \<open>The column base address \<open>base + rhs * stride\<close> of a multivector.\<close>

definition col_base :: "nat \<Rightarrow> size_t \<Rightarrow> size_t \<Rightarrow> nat" where
  "col_base base stride rhs = base + unat (rhs * stride)"

text \<open>The sum of \<open>v * xp[c]\<close> over the entries \<open>(c, v)\<close> of a row, \<open>xp\<close> a column base.\<close>

definition dot :: "(int \<times> 'a::field) list \<Rightarrow> 'a heap \<Rightarrow> nat \<Rightarrow> 'a" where
  "dot es h xp = (\<Sum>(c, v)\<leftarrow>es. v * the (ldo h xp c))"

text \<open>
  What a sweep kernel reads of a row: every position is inside the index array, its value
  is allocated, and so is the slot of the column \<open>xp\<close> that its column index selects.
\<close>

definition reads_ok :: "int list \<Rightarrow> nat \<Rightarrow> 'a heap \<Rightarrow> nat \<Rightarrow> nat \<Rightarrow> nat \<Rightarrow> bool" where
  "reads_ok is vs h xp lo hi =
     (\<forall>k\<in>{lo..<hi}. k < length is \<and> h (vs + k) \<noteq> None \<and> ldo h xp (is ! k) \<noteq> None)"

definition readable1 ::
  "size_t list \<Rightarrow> int list \<Rightarrow> nat \<Rightarrow> 'a heap \<Rightarrow> nat \<Rightarrow> size_t \<Rightarrow> bool"
where
  "readable1 offs is vs h xp r =
     (unat r < length offs \<and> unat (r + 1) < length offs \<and>
      reads_ok is vs h xp (unat (offs ! unat r)) (unat (offs ! unat (r + 1))))"

definition readable2 ::
  "int list list \<Rightarrow> nat list \<Rightarrow> size_t list \<Rightarrow> 'a heap \<Rightarrow> nat \<Rightarrow> size_t \<Rightarrow> bool"
where
  "readable2 ib vb ne h xp r =
     (unat r < length ib \<and> unat r < length vb \<and> unat r < length ne \<and>
      reads_ok (ib ! unat r) (vb ! unat r) h xp 0 (unat (ne ! unat r)))"

text \<open>
  The slots of the vectors that one update touches: \<open>b\<close>, the input column \<open>xin\<close> and the
  output column \<open>xout\<close> at the row are allocated, and \<open>diag\<close> holds a nonzero value.
\<close>

definition slots_ok :: "'a::field heap \<Rightarrow> nat \<Rightarrow> nat \<Rightarrow> nat \<Rightarrow> nat \<Rightarrow> size_t \<Rightarrow> bool" where
  "slots_ok h xout xin bj dg r =
     (h (bj + unat r) \<noteq> None \<and> h (xin + unat r) \<noteq> None \<and> h (xout + unat r) \<noteq> None \<and>
      h (dg + unat r) \<noteq> None \<and> h (dg + unat r) \<noteq> Some 0)"

text \<open>A column index that is a valid \<^verbatim>\<open>size_t\<close> value.\<close>

definition valid_col :: "int \<Rightarrow> bool" where
  "valid_col c = (0 \<le> c \<and> c < 2 ^ 64)"

text \<open>
  Position \<open>k\<close> holds the first entry, from position \<open>lo\<close> on, whose column index is \<open>r\<close>.
\<close>

definition first_diag_at :: "int list \<Rightarrow> size_t \<Rightarrow> nat \<Rightarrow> nat \<Rightarrow> bool" where
  "first_diag_at is r lo k =
     (lo \<le> k \<and> k < length is \<and> is ! k = uint r \<and>
      (\<forall>j\<in>{lo..<k}. valid_col (is ! j) \<and> is ! j \<noteq> uint r))"

text \<open>No position of \<open>lo..<hi\<close> holds an entry whose column index is \<open>r\<close>.\<close>

definition no_diag :: "int list \<Rightarrow> size_t \<Rightarrow> nat \<Rightarrow> nat \<Rightarrow> bool" where
  "no_diag is r lo hi =
     (\<forall>j\<in>{lo..<hi}. j < length is \<and> valid_col (is ! j) \<and> is ! j \<noteq> uint r)"

text \<open>
  The effect of one update on the store, given the row's entries \<open>es\<close>, whether all the
  kernel reads of the row is readable (\<open>rdbl\<close>), the output column \<open>xout\<close>, the input
  column \<open>xin\<close>, the column \<open>bj\<close> of the right-hand side, \<open>diag\<close> and the damping factor.
\<close>

definition relax_step ::
  "'a::field heap \<Rightarrow> bool \<Rightarrow> (int \<times> 'a) list \<Rightarrow> nat \<Rightarrow> nat \<Rightarrow> nat \<Rightarrow> nat \<Rightarrow> 'a \<Rightarrow> size_t
     \<Rightarrow> 'a heap option"
where
  "relax_step h rdbl es xout xin bj dg w r =
     (if rdbl \<and> slots_ok h xout xin bj dg r
      then Some (h(xout + unat r \<mapsto>
             the (h (xin + unat r))
               + w * (the (h (bj + unat r)) - dot es h xin) / the (h (dg + unat r))))
      else None)"

text \<open>
  The update value as section 4.3 of the specification words it: the old \<open>x[r]\<close> plus the
  damped residual over \<open>diag[r]\<close>, the residual summed over the entries with \<open>c \<noteq> r\<close> only.
\<close>

definition spec_gauss_seidel_value ::
  "'a::field heap \<Rightarrow> (int \<times> 'a) list \<Rightarrow> nat \<Rightarrow> nat \<Rightarrow> nat \<Rightarrow> 'a \<Rightarrow> size_t \<Rightarrow> 'a"
where
  "spec_gauss_seidel_value h es xj bj dg w r =
     the (h (xj + unat r))
       + w * (the (h (bj + unat r))
              - (\<Sum>(c, v)\<leftarrow>filter (\<lambda>(c, v). c \<noteq> uint r) es. v * the (ldo h xj c)))
         / the (h (dg + unat r))"

text \<open>Reading one slot of the store a kernel or a sweep returns.\<close>

definition peek :: "'a heap option \<Rightarrow> nat \<Rightarrow> 'a option" where
  "peek ho a = (case ho of None \<Rightarrow> None | Some h \<Rightarrow> h a)"

text \<open>
  A Jacobi kernel for the single column \<open>j\<close> of a multivector: the bases of \<open>x\<close>, \<open>x0\<close> and
  \<open>b\<close> are moved to that column, everything else is kept.
\<close>

definition column_op1 :: "'a DefaultJacobiOp1 \<Rightarrow> size_t \<Rightarrow> 'a DefaultJacobiOp1" where
  "column_op1 op j =
     op\<lparr>DefaultJacobiOp1.x :=
           col_base (DefaultJacobiOp1.x op) (DefaultJacobiOp1.xstride op) j,
        DefaultJacobiOp1.x0 :=
           col_base (DefaultJacobiOp1.x0 op) (DefaultJacobiOp1.xstride op) j,
        DefaultJacobiOp1.b :=
           col_base (DefaultJacobiOp1.b op) (DefaultJacobiOp1.bstride op) j\<rparr>"

definition column_op2 :: "'a DefaultJacobiOp2 \<Rightarrow> size_t \<Rightarrow> 'a DefaultJacobiOp2" where
  "column_op2 op j =
     op\<lparr>DefaultJacobiOp2.x :=
           col_base (DefaultJacobiOp2.x op) (DefaultJacobiOp2.xstride op) j,
        DefaultJacobiOp2.x0 :=
           col_base (DefaultJacobiOp2.x0 op) (DefaultJacobiOp2.xstride op) j,
        DefaultJacobiOp2.b :=
           col_base (DefaultJacobiOp2.b op) (DefaultJacobiOp2.bstride op) j\<rparr>"

text \<open>
  One sweep per column, one column after the other on the same store: the kernel \<open>f j\<close> of
  column \<open>j\<close> is run over the rows \<open>[0, n)\<close>, for the columns \<open>js\<close> in turn.
\<close>

definition column_sweeps ::
  "(size_t \<Rightarrow> 's \<Rightarrow> size_t \<Rightarrow> 's option) \<Rightarrow> nat \<Rightarrow> size_t list \<Rightarrow> 's \<Rightarrow> 's option"
where
  "column_sweeps f n js h = sweep (\<lambda>h' j. sweep (f j) (flat_range n) h') js h"

text \<open>
  A row is stored: its positions are inside the index array, the column indices are valid
  \<^verbatim>\<open>size_t\<close> values and the values are allocated.
\<close>

definition stored :: "int list \<Rightarrow> nat \<Rightarrow> 'a heap \<Rightarrow> nat \<Rightarrow> nat \<Rightarrow> bool" where
  "stored ix vs h lo hi =
     (\<forall>k\<in>{lo..<hi}. k < length ix \<and> valid_col (ix ! k) \<and> h (vs + k) \<noteq> None)"

text \<open>The value of the first entry of a row whose column index is \<open>r\<close>, if there is one.\<close>

definition first_diag :: "(int \<times> 'a) list \<Rightarrow> size_t \<Rightarrow> 'a option" where
  "first_diag es r = map_option snd (find (\<lambda>e. fst e = uint r) es)"

text \<open>
  The coefficient of a row at the column \<open>c\<close>: the sum of the values of the row's entries
  in that column (the sum a sweep forms treats repeated entries this way).
\<close>

definition coeff :: "(int \<times> 'a::field) list \<Rightarrow> int \<Rightarrow> 'a" where
  "coeff es c = (\<Sum>e\<leftarrow>filter (\<lambda>e. fst e = c) es. snd e)"

text \<open>A row of the matrix times a vector \<open>y\<close>.\<close>

definition row_times :: "(int \<times> 'a::field) list \<Rightarrow> (nat \<Rightarrow> 'a) \<Rightarrow> 'a" where
  "row_times es y = (\<Sum>(c, v)\<leftarrow>es. v * y (nat c))"

text \<open>
  Row \<open>r\<close> of a lower-triangular system of \<open>N\<close> rows with one right-hand side, as a
  Gauss-Seidel kernel finds it in the store: the row is stored at the positions \<open>lo..<hi\<close>
  with column indices from 0 to \<open>r\<close> and its values apart from \<open>x\<close>; the slots \<open>x[r]\<close> and
  \<open>b[r]\<close> are allocated; \<open>b[r]\<close> and \<open>diag[r]\<close> lie apart from \<open>x\<close>; \<open>diag[r]\<close> holds the
  diagonal coefficient of the row, which is not zero.
\<close>

definition triangular_row ::
  "int list \<Rightarrow> nat \<Rightarrow> 'a::field heap \<Rightarrow> nat \<Rightarrow> nat \<Rightarrow> nat \<Rightarrow> nat \<Rightarrow> nat \<Rightarrow> nat \<Rightarrow> nat \<Rightarrow> bool"
where
  "triangular_row ix vs h lo hi xa ba dg N r =
     ((\<forall>k\<in>{lo..<hi}. k < length ix \<and> 0 \<le> ix ! k \<and> ix ! k \<le> int r \<and> h (vs + k) \<noteq> None \<and>
                      (vs + k < xa \<or> xa + N \<le> vs + k)) \<and>
      h (xa + r) \<noteq> None \<and> h (ba + r) \<noteq> None \<and>
      (ba + r < xa \<or> xa + N \<le> ba + r) \<and> (dg + r < xa \<or> xa + N \<le> dg + r) \<and>
      h (dg + r) = Some (coeff (row_entries ix vs h lo hi) (int r)) \<and>
      coeff (row_entries ix vs h lo hi) (int r) \<noteq> 0)"

section \<open>The concrete scenario of the specification\<close>

text \<open>A store holding the given values at the addresses \<open>0, 1, 2, \<dots>\<close> and nothing else.\<close>

definition mem_of :: "'a list \<Rightarrow> 'a heap" where
  "mem_of xs a = (if a < length xs then Some (xs ! a) else None)"

text \<open>
  The 3 by 3 matrix with the rows \<open>[(0,2),(1,5)]\<close>, \<open>[(0,1),(1,3),(2,1)]\<close>, \<open>[(1,1),(2,4)]\<close>:
  its seven values at the addresses 0 to 6, \<open>diag\<close> at 7 to 9, \<open>x\<close> at 10 to 12, \<open>x0\<close> at
  13 to 15 and \<open>b\<close> at 16 to 18.
\<close>

definition scenario_mem :: "rat heap" where
  "scenario_mem = mem_of [2, 5, 1, 3, 1, 1, 4, 0, 0, 0, 7, 7, 7, 0, 0, 0, 1, 1, 1]"

definition scenario_extract1 :: ExtractDiagonalOp1 where
  "scenario_extract1 =
     \<lparr>ExtractDiagonalOp1.offsets = [0, 2, 5, 7], inds = [0, 1, 0, 1, 2, 1, 2],
      vals = 0, diag = 7, numRows = 3\<rparr>"

definition scenario_extract2 :: ExtractDiagonalOp2 where
  "scenario_extract2 =
     \<lparr>ExtractDiagonalOp2.inds_beg = [[0, 1], [0, 1, 2], [1, 2]], vals_beg = [0, 2, 5],
      numEntries = [2, 3, 2], diag = 7, numRows = 3\<rparr>"

definition scenario_jacobi1 :: "rat DefaultJacobiOp1" where
  "scenario_jacobi1 =
     \<lparr>DefaultJacobiOp1.offsets = [0, 2, 5, 7], inds = [0, 1, 0, 1, 2, 1, 2],
      vals = 0, diag = 7, numRows = 3, x = 10, x0 = 13, b = 16,
      damping_factor = 1, xstride = 3, bstride = 3\<rparr>"

definition scenario_jacobi2 :: "rat DefaultJacobiOp2" where
  "scenario_jacobi2 =
     \<lparr>DefaultJacobiOp2.inds_beg = [[0, 1], [0, 1, 2], [1, 2]], vals_beg = [0, 2, 5],
      numEntries = [2, 3, 2], diag = 7, numRows = 3, x = 10, x0 = 13, b = 16,
      damping_factor = 1, xstride = 3, bstride = 3\<rparr>"

text \<open>The same storage with the first row's column indices changed to \<open>1, 1\<close>: no diagonal there.\<close>

definition nodiag_extract1 :: ExtractDiagonalOp1 where
  "nodiag_extract1 =
     \<lparr>ExtractDiagonalOp1.offsets = [0, 2, 5, 7], inds = [1, 1, 0, 1, 2, 1, 2],
      vals = 0, diag = 7, numRows = 3\<rparr>"

definition nodiag_extract2 :: ExtractDiagonalOp2 where
  "nodiag_extract2 =
     \<lparr>ExtractDiagonalOp2.inds_beg = [[1, 1], [0, 1, 2], [1, 2]], vals_beg = [0, 2, 5],
      numEntries = [2, 3, 2], diag = 7, numRows = 3\<rparr>"

text \<open>
  Two right-hand sides: the same matrix and its diagonal \<open>[2, 3, 4]\<close> at 7 to 9, the columns
  of \<open>x\<close> at 10 to 12 and 13 to 15, those of \<open>x0\<close> at 16 to 18 and 19 to 21, those of \<open>b\<close>
  at 22 to 24 and 25 to 27.
\<close>

definition mv_mem :: "rat heap" where
  "mv_mem = mem_of [2, 5, 1, 3, 1, 1, 4,  2, 3, 4,  1, 1, 1, 2, 5, 1,
                    1, 2, 3, 0, 1, 0,  1, 1, 1, 2, 2, 2]"

definition mv_jacobi1 :: "rat DefaultJacobiOp1" where
  "mv_jacobi1 =
     \<lparr>DefaultJacobiOp1.offsets = [0, 2, 5, 7], inds = [0, 1, 0, 1, 2, 1, 2],
      vals = 0, diag = 7, numRows = 3, x = 10, x0 = 16, b = 22,
      damping_factor = 1, xstride = 3, bstride = 3\<rparr>"

definition mv_jacobi2 :: "rat DefaultJacobiOp2" where
  "mv_jacobi2 =
     \<lparr>DefaultJacobiOp2.inds_beg = [[0, 1], [0, 1, 2], [1, 2]], vals_beg = [0, 2, 5],
      numEntries = [2, 3, 2], diag = 7, numRows = 3, x = 10, x0 = 16, b = 22,
      damping_factor = 1, xstride = 3, bstride = 3\<rparr>"

definition mv_gs1 :: "rat DefaultFineGrainHybridGaussSeidelOp1" where
  "mv_gs1 =
     \<lparr>DefaultFineGrainHybridGaussSeidelOp1.offsets = [0, 2, 5, 7],
      inds = [0, 1, 0, 1, 2, 1, 2],
      vals = 0, diag = 7, numRows = 3, x = 10, b = 22,
      damping_factor = 1, xstride = 3, bstride = 3\<rparr>"

definition mv_gs2 :: "rat DefaultFineGrainHybridGaussSeidelOp2" where
  "mv_gs2 =
     \<lparr>DefaultFineGrainHybridGaussSeidelOp2.inds_beg = [[0, 1], [0, 1, 2], [1, 2]],
      vals_beg = [0, 2, 5],
      numEntries = [2, 3, 2], diag = 7, numRows = 3, x = 10, b = 22,
      damping_factor = 1, xstride = 3, bstride = 3\<rparr>"

section \<open>The loops\<close>

lemma reads_ok_step:
  assumes "lo < hi"
  shows "reads_ok ix vs h xp lo hi \<longleftrightarrow>
     (lo < length ix \<and> h (vs + lo) \<noteq> None \<and> ldo h xp (ix ! lo) \<noteq> None) \<and>
     reads_ok ix vs h xp (Suc lo) hi"
proof -
  from assms have "{lo..<hi} = insert lo {Suc lo..<hi}" by auto
  then show ?thesis unfolding reads_ok_def by simp
qed

lemma reads_ok_empty: "hi \<le> lo \<Longrightarrow> reads_ok ix vs h xp lo hi"
  by (simp add: reads_ok_def)

lemma row_entries_step:
  "lo < hi \<Longrightarrow>
   row_entries ix vs h lo hi = (ix ! lo, the (h (vs + lo))) # row_entries ix vs h (Suc lo) hi"
  by (simp add: row_entries_def upt_conv_Cons)

lemma row_entries_empty: "hi \<le> lo \<Longrightarrow> row_entries ix vs h lo hi = []"
  by (simp add: row_entries_def)

lemma residual_loop1_char:
  assumes "rd offs (row + 1) = Some hi"
  shows "residual_loop1 offs ix vs h xp row c tmp =
      (if reads_ok ix vs h xp (unat c) (unat hi)
       then Some (tmp - dot (row_entries ix vs h (unat c) (unat hi)) h xp) else None)"
  using assms
proof (induction offs ix vs h xp row c tmp rule: residual_loop1.induct)
  case (1 offs ix vs h xp row c tmp)
  note hi = "1.prems"
  show ?case
  proof (cases "c < hi")
    case False
    then have "unat hi \<le> unat c" by (simp add: word_less_nat_alt)
    then have "reads_ok ix vs h xp (unat c) (unat hi)" "row_entries ix vs h (unat c) (unat hi) = []"
      by (simp_all add: reads_ok_empty row_entries_empty)
    moreover have "residual_loop1 offs ix vs h xp row c tmp = Some tmp"
      using False hi by (subst residual_loop1.simps) simp
    ultimately show ?thesis by (simp add: dot_def)
  next
    case True
    then have u: "unat (c + 1) = Suc (unat c)" by (rule unat_inc_less)
    from True have lt: "unat c < unat hi" by (simp add: word_less_nat_alt)
    have step: "residual_loop1 offs ix vs h xp row c tmp =
        (case h (vs + unat c) of None \<Rightarrow> None | Some v \<Rightarrow>
          (case rd ix c of None \<Rightarrow> None | Some ind \<Rightarrow>
            (case ldo h xp ind of None \<Rightarrow> None | Some xv \<Rightarrow>
               residual_loop1 offs ix vs h xp row (c + 1) (tmp - v * xv))))"
      using True hi by (subst residual_loop1.simps) (simp add: ld_def)
    show ?thesis
    proof (cases "unat c < length ix \<and> h (vs + unat c) \<noteq> None \<and> ldo h xp (ix ! unat c) \<noteq> None")
      case False
      then have "\<not> reads_ok ix vs h xp (unat c) (unat hi)"
        using reads_ok_step[OF lt] by blast
      moreover have "residual_loop1 offs ix vs h xp row c tmp = None"
        unfolding step using False by (auto simp add: rd_def split: option.split)
      ultimately show ?thesis by simp
    next
      case ok: True
      then obtain v xv where v: "h (vs + unat c) = Some v" and xv: "ldo h xp (ix ! unat c) = Some xv"
        by auto
      from ok have r: "rd ix c = Some (ix ! unat c)" by (simp add: rd_def)
      have ih: "residual_loop1 offs ix vs h xp row (c + 1) (tmp - v * xv) =
          (if reads_ok ix vs h xp (Suc (unat c)) (unat hi)
           then Some (tmp - v * xv - dot (row_entries ix vs h (Suc (unat c)) (unat hi)) h xp) else None)"
        using "1.IH"[OF hi True _ r xv hi, of v] v by (simp add: ld_def u)
      have ro: "reads_ok ix vs h xp (unat c) (unat hi) = reads_ok ix vs h xp (Suc (unat c)) (unat hi)"
        using ok by (simp add: reads_ok_step[OF lt])
      have d: "dot (row_entries ix vs h (unat c) (unat hi)) h xp
           = v * xv + dot (row_entries ix vs h (Suc (unat c)) (unat hi)) h xp"
        by (simp add: row_entries_step[OF lt] dot_def v xv)
      show ?thesis
        unfolding step by (simp add: v r xv ih ro d diff_diff_eq)
    qed
  qed
qed

lemma residual_loop2_char:
  assumes "rd ne row = Some n" and "j \<le> n"
  shows "residual_loop2 ne curind curval h xp row j tmp =
      (if reads_ok curind curval h xp (unat j) (unat n)
       then Some (tmp - dot (row_entries curind curval h (unat j) (unat n)) h xp) else None)"
  using assms
proof (induction ne curind curval h xp row j tmp rule: residual_loop2.induct)
  case (1 ne curind curval h xp row j tmp)
  note n = "1.prems"(1) and le = "1.prems"(2)
  show ?case
  proof (cases "j = n")
    case True
    then have "reads_ok curind curval h xp (unat j) (unat n)"
        "row_entries curind curval h (unat j) (unat n) = []"
      by (simp_all add: reads_ok_empty row_entries_empty)
    moreover have "residual_loop2 ne curind curval h xp row j tmp = Some tmp"
      using True n by (subst residual_loop2.simps) simp
    ultimately show ?thesis by (simp add: dot_def)
  next
    case False
    with le have less: "j < n" by simp
    then have u: "unat (j + 1) = Suc (unat j)" by (rule unat_inc_less)
    from less have lt: "unat j < unat n" by (simp add: word_less_nat_alt)
    from less have le': "j + 1 \<le> n" by (rule inc_le)
    have step: "residual_loop2 ne curind curval h xp row j tmp =
        (case h (curval + unat j) of None \<Rightarrow> None | Some v \<Rightarrow>
          (case rd curind j of None \<Rightarrow> None | Some ind \<Rightarrow>
            (case ldo h xp ind of None \<Rightarrow> None | Some xv \<Rightarrow>
               residual_loop2 ne curind curval h xp row (j + 1) (tmp - v * xv))))"
      using False n by (subst residual_loop2.simps) (simp add: ld_def)
    show ?thesis
    proof (cases "unat j < length curind \<and> h (curval + unat j) \<noteq> None
                  \<and> ldo h xp (curind ! unat j) \<noteq> None")
      case False
      then have "\<not> reads_ok curind curval h xp (unat j) (unat n)"
        using reads_ok_step[OF lt] by blast
      moreover have "residual_loop2 ne curind curval h xp row j tmp = None"
        unfolding step using False by (auto simp add: rd_def split: option.split)
      ultimately show ?thesis by simp
    next
      case ok: True
      then obtain v xv where v: "h (curval + unat j) = Some v"
        and xv: "ldo h xp (curind ! unat j) = Some xv"
        by auto
      from ok have r: "rd curind j = Some (curind ! unat j)" by (simp add: rd_def)
      have ih: "residual_loop2 ne curind curval h xp row (j + 1) (tmp - v * xv) =
          (if reads_ok curind curval h xp (Suc (unat j)) (unat n)
           then Some (tmp - v * xv - dot (row_entries curind curval h (Suc (unat j)) (unat n)) h xp)
           else None)"
        using "1.IH"[OF n False _ r xv n le', of v] v by (simp add: ld_def u)
      have ro: "reads_ok curind curval h xp (unat j) (unat n)
          = reads_ok curind curval h xp (Suc (unat j)) (unat n)"
        using ok by (simp add: reads_ok_step[OF lt])
      have d: "dot (row_entries curind curval h (unat j) (unat n)) h xp
           = v * xv + dot (row_entries curind curval h (Suc (unat j)) (unat n)) h xp"
        by (simp add: row_entries_step[OF lt] dot_def v xv)
      show ?thesis
        unfolding step by (simp add: v r xv ih ro d diff_diff_eq)
    qed
  qed
qed

lemma rhs_eq_div: "((i :: size_t) - i mod n) div n = i div n"
proof (cases "n = 0")
  case True then show ?thesis by simp
next
  case False
  then have n0: "0 < n" by (simp add: word_greater_zero_iff)
  have e: "i - i mod n = i div n * n" by (rule minus_mod_eq_div_mult)
  have "unat (i div n) * unat n \<le> unat i" by (simp add: unat_div)
  also have "unat i < 2 ^ LENGTH(64)" by (rule unsigned_less)
  finally have "i div n * n div n = i div n"
    using n0 by (rule word_div_mult[rotated])
  then show ?thesis by (simp only: e)
qed

lemma valid_col_cast: 
  assumes "valid_col c" shows "(r = (word_of_int c :: size_t)) \<longleftrightarrow> (c = uint r)"
proof
  assume "r = word_of_int c"
  then have "word_of_int c = r" by simp
  then have "uint r = c" using assms unfolding valid_col_def
    by (intro word_of_int_inverse) simp_all
  then show "c = uint r" by simp
next
  assume "c = uint r" then show "r = word_of_int c" by simp
qed

lemma no_diag_step:
  assumes "lo < hi"
  shows "no_diag ix r lo hi \<longleftrightarrow>
     (lo < length ix \<and> valid_col (ix ! lo) \<and> ix ! lo \<noteq> uint r) \<and> no_diag ix r (Suc lo) hi"
proof -
  from assms have "{lo..<hi} = insert lo {Suc lo..<hi}" by auto
  then show ?thesis unfolding no_diag_def by simp
qed

lemma first_diag_at_step:
  assumes "lo < k"
  shows "first_diag_at ix r lo k \<longleftrightarrow>
     (valid_col (ix ! lo) \<and> ix ! lo \<noteq> uint r) \<and> first_diag_at ix r (Suc lo) k"
proof -
  from assms have "{lo..<k} = insert lo {Suc lo..<k}" by auto
  then show ?thesis using assms unfolding first_diag_at_def by auto
qed

lemma first_diag_at_le: "first_diag_at ix r lo k \<Longrightarrow> lo \<le> k \<and> k < length ix"
  by (simp add: first_diag_at_def)

text \<open>The scan loop, given where it stops: it reads no position beyond \<open>k\<close>.\<close>

lemma extract_loop1_match:
  assumes "rd offs (row + 1) = Some hi"
    and "first_diag_at ix row (unat c) k" and "k < unat hi"
  shows "extract_loop1 offs ix vs dg h row c =
           (case h (vs + k) of None \<Rightarrow> None | Some v \<Rightarrow> st h (dg + unat row) v)"
  using assms
proof (induction offs ix vs dg h row c rule: extract_loop1.induct)
  case (1 offs ix vs dg h row c)
  note hi = "1.prems"(1) and fd = "1.prems"(2) and k = "1.prems"(3)
  from fd have ck: "unat c \<le> k" "k < length ix" by (simp_all add: first_diag_at_def)
  with k have lt: "c < hi" by (simp add: word_less_nat_alt)
  then have u: "unat (c + 1) = Suc (unat c)" by (rule unat_inc_less)
  from ck k have r: "rd ix c = Some (ix ! unat c)" by (simp add: rd_def)
  have step: "extract_loop1 offs ix vs dg h row c =
      (if row = word_of_int (ix ! unat c) then
         (case h (vs + unat c) of None \<Rightarrow> None | Some v \<Rightarrow> st h (dg + unat row) v)
       else extract_loop1 offs ix vs dg h row (c + 1))"
    using hi lt r by (subst extract_loop1.simps) (simp add: ld_def)
  show ?case
  proof (cases "unat c = k")
    case True
    with fd have "ix ! unat c = uint row" by (simp add: first_diag_at_def)
    then show ?thesis unfolding step using True by simp
  next
    case False
    with ck have less: "unat c < k" by simp
    from fd have f: "valid_col (ix ! unat c)" "ix ! unat c \<noteq> uint row"
      "first_diag_at ix row (Suc (unat c)) k"
      by (simp_all add: first_diag_at_step[OF less])
    then have ne: "row \<noteq> word_of_int (ix ! unat c)" by (simp add: valid_col_cast)
    have "extract_loop1 offs ix vs dg h row (c + 1) =
           (case h (vs + k) of None \<Rightarrow> None | Some v \<Rightarrow> st h (dg + unat row) v)"
      using "1.IH"[OF hi lt r ne hi _ k] f(3) by (simp add: u)
    then show ?thesis unfolding step using ne by simp
  qed
qed

lemma extract_loop1_nomatch:
  assumes "rd offs (row + 1) = Some hi"
    and "no_diag ix row (unat c) (unat hi)"
  shows "extract_loop1 offs ix vs dg h row c = Some h"
  using assms
proof (induction offs ix vs dg h row c rule: extract_loop1.induct)
  case (1 offs ix vs dg h row c)
  note hi = "1.prems"(1) and nd = "1.prems"(2)
  show ?case
  proof (cases "c < hi")
    case False
    then show ?thesis using hi by (subst extract_loop1.simps) simp
  next
    case True
    then have u: "unat (c + 1) = Suc (unat c)" by (rule unat_inc_less)
    from True have lt: "unat c < unat hi" by (simp add: word_less_nat_alt)
    from nd have f: "unat c < length ix" "valid_col (ix ! unat c)" "ix ! unat c \<noteq> uint row"
      "no_diag ix row (Suc (unat c)) (unat hi)"
      by (simp_all add: no_diag_step[OF lt])
    then have r: "rd ix c = Some (ix ! unat c)" by (simp add: rd_def)
    from f have ne: "row \<noteq> word_of_int (ix ! unat c)" by (simp add: valid_col_cast)
    have "extract_loop1 offs ix vs dg h row (c + 1) = Some h"
      using "1.IH"[OF hi True r ne hi] f(4) by (simp add: u)
    then show ?thesis using hi True r ne by (subst extract_loop1.simps) simp
  qed
qed

lemma extract_loop2_match:
  assumes "rd ne row = Some n"
    and "first_diag_at curind row (unat j) k" and "k < unat n"
  shows "extract_loop2 ne curind curval dg h row j =
           (case h (curval + k) of None \<Rightarrow> None | Some v \<Rightarrow> st h (dg + unat row) v)"
  using assms
proof (induction ne curind curval dg h row j rule: extract_loop2.induct)
  case (1 ne curind curval dg h row j)
  note n = "1.prems"(1) and fd = "1.prems"(2) and k = "1.prems"(3)
  from fd have ck: "unat j \<le> k" "k < length curind" by (simp_all add: first_diag_at_def)
  with k have lt: "j < n" by (simp add: word_less_nat_alt)
  then have u: "unat (j + 1) = Suc (unat j)" by (rule unat_inc_less)
  from ck k have r: "rd curind j = Some (curind ! unat j)" by (simp add: rd_def)
  have step: "extract_loop2 ne curind curval dg h row j =
      (if row = word_of_int (curind ! unat j) then
         (case h (curval + unat j) of None \<Rightarrow> None | Some v \<Rightarrow> st h (dg + unat row) v)
       else extract_loop2 ne curind curval dg h row (j + 1))"
    using n lt r by (subst extract_loop2.simps) (simp add: ld_def)
  show ?case
  proof (cases "unat j = k")
    case True
    with fd have "curind ! unat j = uint row" by (simp add: first_diag_at_def)
    then show ?thesis unfolding step using True by simp
  next
    case False
    with ck have less: "unat j < k" by simp
    from fd have f: "valid_col (curind ! unat j)" "curind ! unat j \<noteq> uint row"
      "first_diag_at curind row (Suc (unat j)) k"
      by (simp_all add: first_diag_at_step[OF less])
    then have ne: "row \<noteq> word_of_int (curind ! unat j)" by (simp add: valid_col_cast)
    have "extract_loop2 ne curind curval dg h row (j + 1) =
           (case h (curval + k) of None \<Rightarrow> None | Some v \<Rightarrow> st h (dg + unat row) v)"
      using "1.IH"[OF n lt r ne n _ k] f(3) by (simp add: u)
    then show ?thesis unfolding step using ne by simp
  qed
qed

lemma extract_loop2_nomatch:
  assumes "rd ne row = Some n"
    and "no_diag curind row (unat j) (unat n)"
  shows "extract_loop2 ne curind curval dg h row j = Some h"
  using assms
proof (induction ne curind curval dg h row j rule: extract_loop2.induct)
  case (1 ne curind curval dg h row j)
  note n = "1.prems"(1) and nd = "1.prems"(2)
  show ?case
  proof (cases "j < n")
    case False
    then show ?thesis using n by (subst extract_loop2.simps) simp
  next
    case True
    then have u: "unat (j + 1) = Suc (unat j)" by (rule unat_inc_less)
    from True have lt: "unat j < unat n" by (simp add: word_less_nat_alt)
    from nd have f: "unat j < length curind" "valid_col (curind ! unat j)"
      "curind ! unat j \<noteq> uint row" "no_diag curind row (Suc (unat j)) (unat n)"
      by (simp_all add: no_diag_step[OF lt])
    then have r: "rd curind j = Some (curind ! unat j)" by (simp add: rd_def)
    from f have ne: "row \<noteq> word_of_int (curind ! unat j)" by (simp add: valid_col_cast)
    have "extract_loop2 ne curind curval dg h row (j + 1) = Some h"
      using "1.IH"[OF n True r ne n] f(4) by (simp add: u)
    then show ?thesis using n True r ne by (subst extract_loop2.simps) simp
  qed
qed


lemma residual1_full:
  "(case rd offs row of None \<Rightarrow> None
    | Some lo \<Rightarrow> residual_loop1 offs ix vs h xp row lo tmp) =
   (if readable1 offs ix vs h xp row
    then Some (tmp - dot (entries1 offs ix vs h row) h xp) else None)"
proof (cases "unat row < length offs \<and> unat (row + 1) < length offs")
  case True
  then have "rd offs (row + 1) = Some (offs ! unat (row + 1))" by (simp add: rd_def)
  then show ?thesis using True
    by (simp add: residual_loop1_char rd_def readable1_def entries1_def)
next
  case False
  have "rd offs (row + 1) = None \<Longrightarrow> residual_loop1 offs ix vs h xp row lo tmp = None" for lo
    by (subst residual_loop1.simps) simp
  with False show ?thesis
    by (auto simp: rd_def readable1_def split: option.split)
qed

lemma residual2_full:
  "(case rd vb row of None \<Rightarrow> None
    | Some curval \<Rightarrow>
        (case rd ib row of None \<Rightarrow> None
         | Some curind \<Rightarrow> residual_loop2 ne curind curval h xp row 0 tmp)) =
   (if readable2 ib vb ne h xp row
    then Some (tmp - dot (entries2 ib vb ne h row) h xp) else None)"
proof (cases "unat row < length ne")
  case True
  then have "rd ne row = Some (ne ! unat row)" by (simp add: rd_def)
  then show ?thesis using True
    by (simp add: residual_loop2_char rd_def readable2_def entries2_def)
next
  case False
  have "rd ne row = None \<Longrightarrow> residual_loop2 ne curind curval h xp row 0 tmp = None"
    for curind curval
    by (subst residual_loop2.simps) simp
  with False show ?thesis
    by (auto simp: rd_def readable2_def split: option.split)
qed

lemma residual1_bind:
  "(case rd offs row of None \<Rightarrow> None
    | Some lo \<Rightarrow>
        (case residual_loop1 offs ix vs h xp row lo tmp of None \<Rightarrow> None | Some t \<Rightarrow> F t)) =
   (if readable1 offs ix vs h xp row
    then F (tmp - dot (entries1 offs ix vs h row) h xp) else None)"
  using residual1_full[where offs = offs and row = row and ix = ix and vs = vs and h = h
      and xp = xp and tmp = tmp]
  by (cases "rd offs row") (auto split: if_splits)

lemma residual2_bind:
  "(case rd vb row of None \<Rightarrow> None
    | Some curval \<Rightarrow>
        (case rd ib row of None \<Rightarrow> None
         | Some curind \<Rightarrow>
             (case residual_loop2 ne curind curval h xp row 0 tmp of
                None \<Rightarrow> None | Some t \<Rightarrow> F t))) =
   (if readable2 ib vb ne h xp row
    then F (tmp - dot (entries2 ib vb ne h row) h xp) else None)"
  using residual2_full[where vb = vb and row = row and ib = ib and ne = ne and h = h
      and xp = xp and tmp = tmp]
  by (cases "rd vb row"; cases "rd ib row") (auto split: if_splits)

text \<open>What the sweep kernels do once the residual is known.\<close>

lemma update_tail:
  "(case ld h bj row of None \<Rightarrow> None
    | Some tmp0 \<Rightarrow>
        if ok then
          (case ld h xin row of None \<Rightarrow> None
           | Some xv \<Rightarrow>
               (case ld h dg row of None \<Rightarrow> None
                | Some d \<Rightarrow> if d = 0 then None
                            else st h (xout + unat row) (xv + w * (tmp0 - s) / d)))
        else None) =
   (if ok \<and> slots_ok h xout xin bj dg row
    then Some (h(xout + unat row \<mapsto>
            the (h (xin + unat row)) + w * (the (h (bj + unat row)) - s) / the (h (dg + unat row))))
    else None)"
  by (auto simp: ld_def st_def slots_ok_def split: option.split)

lemma jacobi1_char:
  "DefaultJacobiOp1_execute op h i =
     (if DefaultJacobiOp1.numRows op = 0 then None
      else relax_step h
        (readable1 (DefaultJacobiOp1.offsets op) (DefaultJacobiOp1.inds op)
           (DefaultJacobiOp1.vals op) h
           (col_base (DefaultJacobiOp1.x0 op) (DefaultJacobiOp1.xstride op)
              (i div DefaultJacobiOp1.numRows op))
           (i mod DefaultJacobiOp1.numRows op))
        (entries1 (DefaultJacobiOp1.offsets op) (DefaultJacobiOp1.inds op)
           (DefaultJacobiOp1.vals op) h (i mod DefaultJacobiOp1.numRows op))
        (col_base (DefaultJacobiOp1.x op) (DefaultJacobiOp1.xstride op)
           (i div DefaultJacobiOp1.numRows op))
        (col_base (DefaultJacobiOp1.x0 op) (DefaultJacobiOp1.xstride op)
           (i div DefaultJacobiOp1.numRows op))
        (col_base (DefaultJacobiOp1.b op) (DefaultJacobiOp1.bstride op)
           (i div DefaultJacobiOp1.numRows op))
        (DefaultJacobiOp1.diag op) (DefaultJacobiOp1.damping_factor op)
        (i mod DefaultJacobiOp1.numRows op))"
  unfolding DefaultJacobiOp1_execute_def Let_def rhs_eq_div col_base_def[symmetric] relax_step_def
  by (simp only: residual1_bind) (simp only: update_tail)

lemma jacobi2_char:
  "DefaultJacobiOp2_execute op h i =
     (if DefaultJacobiOp2.numRows op = 0 then None
      else relax_step h
        (readable2 (DefaultJacobiOp2.inds_beg op) (DefaultJacobiOp2.vals_beg op)
           (DefaultJacobiOp2.numEntries op) h
           (col_base (DefaultJacobiOp2.x0 op) (DefaultJacobiOp2.xstride op)
              (i div DefaultJacobiOp2.numRows op))
           (i mod DefaultJacobiOp2.numRows op))
        (entries2 (DefaultJacobiOp2.inds_beg op) (DefaultJacobiOp2.vals_beg op)
           (DefaultJacobiOp2.numEntries op) h (i mod DefaultJacobiOp2.numRows op))
        (col_base (DefaultJacobiOp2.x op) (DefaultJacobiOp2.xstride op)
           (i div DefaultJacobiOp2.numRows op))
        (col_base (DefaultJacobiOp2.x0 op) (DefaultJacobiOp2.xstride op)
           (i div DefaultJacobiOp2.numRows op))
        (col_base (DefaultJacobiOp2.b op) (DefaultJacobiOp2.bstride op)
           (i div DefaultJacobiOp2.numRows op))
        (DefaultJacobiOp2.diag op) (DefaultJacobiOp2.damping_factor op)
        (i mod DefaultJacobiOp2.numRows op))"
  unfolding DefaultJacobiOp2_execute_def Let_def rhs_eq_div col_base_def[symmetric] relax_step_def
  by (simp only: residual2_bind) (simp only: update_tail)

lemma gauss_seidel1_char:
  "DefaultFineGrainHybridGaussSeidelOp1_execute op h i =
     (if DefaultFineGrainHybridGaussSeidelOp1.numRows op = 0 then None
      else relax_step h
        (readable1 (DefaultFineGrainHybridGaussSeidelOp1.offsets op)
           (DefaultFineGrainHybridGaussSeidelOp1.inds op)
           (DefaultFineGrainHybridGaussSeidelOp1.vals op) h
           (col_base (DefaultFineGrainHybridGaussSeidelOp1.x op)
              (DefaultFineGrainHybridGaussSeidelOp1.xstride op)
              (i div DefaultFineGrainHybridGaussSeidelOp1.numRows op))
           (i mod DefaultFineGrainHybridGaussSeidelOp1.numRows op))
        (entries1 (DefaultFineGrainHybridGaussSeidelOp1.offsets op)
           (DefaultFineGrainHybridGaussSeidelOp1.inds op)
           (DefaultFineGrainHybridGaussSeidelOp1.vals op) h
           (i mod DefaultFineGrainHybridGaussSeidelOp1.numRows op))
        (col_base (DefaultFineGrainHybridGaussSeidelOp1.x op)
           (DefaultFineGrainHybridGaussSeidelOp1.xstride op)
           (i div DefaultFineGrainHybridGaussSeidelOp1.numRows op))
        (col_base (DefaultFineGrainHybridGaussSeidelOp1.x op)
           (DefaultFineGrainHybridGaussSeidelOp1.xstride op)
           (i div DefaultFineGrainHybridGaussSeidelOp1.numRows op))
        (col_base (DefaultFineGrainHybridGaussSeidelOp1.b op)
           (DefaultFineGrainHybridGaussSeidelOp1.bstride op)
           (i div DefaultFineGrainHybridGaussSeidelOp1.numRows op))
        (DefaultFineGrainHybridGaussSeidelOp1.diag op)
        (DefaultFineGrainHybridGaussSeidelOp1.damping_factor op)
        (i mod DefaultFineGrainHybridGaussSeidelOp1.numRows op))"
  unfolding DefaultFineGrainHybridGaussSeidelOp1_execute_def Let_def rhs_eq_div
    col_base_def[symmetric] relax_step_def
  by (simp only: residual1_bind) (simp only: update_tail)

lemma gauss_seidel2_char:
  "DefaultFineGrainHybridGaussSeidelOp2_execute op h i =
     (if DefaultFineGrainHybridGaussSeidelOp2.numRows op = 0 then None
      else relax_step h
        (readable2 (DefaultFineGrainHybridGaussSeidelOp2.inds_beg op)
           (DefaultFineGrainHybridGaussSeidelOp2.vals_beg op)
           (DefaultFineGrainHybridGaussSeidelOp2.numEntries op) h
           (col_base (DefaultFineGrainHybridGaussSeidelOp2.x op)
              (DefaultFineGrainHybridGaussSeidelOp2.xstride op)
              (i div DefaultFineGrainHybridGaussSeidelOp2.numRows op))
           (i mod DefaultFineGrainHybridGaussSeidelOp2.numRows op))
        (entries2 (DefaultFineGrainHybridGaussSeidelOp2.inds_beg op)
           (DefaultFineGrainHybridGaussSeidelOp2.vals_beg op)
           (DefaultFineGrainHybridGaussSeidelOp2.numEntries op) h
           (i mod DefaultFineGrainHybridGaussSeidelOp2.numRows op))
        (col_base (DefaultFineGrainHybridGaussSeidelOp2.x op)
           (DefaultFineGrainHybridGaussSeidelOp2.xstride op)
           (i div DefaultFineGrainHybridGaussSeidelOp2.numRows op))
        (col_base (DefaultFineGrainHybridGaussSeidelOp2.x op)
           (DefaultFineGrainHybridGaussSeidelOp2.xstride op)
           (i div DefaultFineGrainHybridGaussSeidelOp2.numRows op))
        (col_base (DefaultFineGrainHybridGaussSeidelOp2.b op)
           (DefaultFineGrainHybridGaussSeidelOp2.bstride op)
           (i div DefaultFineGrainHybridGaussSeidelOp2.numRows op))
        (DefaultFineGrainHybridGaussSeidelOp2.diag op)
        (DefaultFineGrainHybridGaussSeidelOp2.damping_factor op)
        (i mod DefaultFineGrainHybridGaussSeidelOp2.numRows op))"
  unfolding DefaultFineGrainHybridGaussSeidelOp2_execute_def Let_def rhs_eq_div
    col_base_def[symmetric] relax_step_def
  by (simp only: residual2_bind) (simp only: update_tail)

lemma row_in_range:
  assumes "n \<noteq> (0 :: size_t)" and "length offs = Suc (unat n)"
  shows "unat (i mod n) < length offs \<and> unat (i mod n + 1) < length offs"
proof -
  from assms(1) have "i mod n < n" by (simp add: word_mod_less_divisor word_greater_zero_iff)
  then have "unat (i mod n) < unat n" "unat (i mod n + 1) = Suc (unat (i mod n))"
    by (simp_all add: word_less_nat_alt unat_inc_less)
  with assms(2) show ?thesis by simp
qed

lemma row_in_range2:
  assumes "n \<noteq> (0 :: size_t)" and "length xs = unat n"
  shows "unat (i mod n) < length xs"
proof -
  from assms(1) have "i mod n < n" by (simp add: word_mod_less_divisor word_greater_zero_iff)
  with assms(2) show ?thesis by (simp add: word_less_nat_alt)
qed

lemma relax_step_Some:
  assumes "rdbl" "h (xin + unat r) = Some xv" "h (bj + unat r) = Some bv"
    "h (dg + unat r) = Some d" "d \<noteq> 0" "h (xout + unat r) \<noteq> None"
  shows "relax_step h rdbl es xout xin bj dg w r =
           Some (h(xout + unat r \<mapsto> xv + w * (bv - (\<Sum>(c, v)\<leftarrow>es. v * the (ldo h xin c))) / d))"
  using assms by (simp add: relax_step_def slots_ok_def dot_def)

lemma st_frame: "st h a v = Some h' \<Longrightarrow> h' = h(a \<mapsto> v)"
  by (simp add: st_def split: if_splits)

lemma extract_loop1_frame:
  "extract_loop1 offs ix vs dg h row c = Some h' \<Longrightarrow> a \<noteq> dg + unat row \<Longrightarrow> h' a = h a"
proof (induction offs ix vs dg h row c rule: extract_loop1.induct)
  case (1 offs ix vs dg h row c)
  from "1.prems"(1) "1.prems"(2) "1.IH" show ?case
    by (subst (asm) extract_loop1.simps)
       (auto split: option.splits if_splits dest!: st_frame)
qed

lemma extract_loop2_frame:
  "extract_loop2 ne curind curval dg h row j = Some h' \<Longrightarrow> a \<noteq> dg + unat row \<Longrightarrow> h' a = h a"
proof (induction ne curind curval dg h row j rule: extract_loop2.induct)
  case (1 ne curind curval dg h row j)
  from "1.prems"(1) "1.prems"(2) "1.IH" show ?case
    by (subst (asm) extract_loop2.simps)
       (auto split: option.splits if_splits dest!: st_frame)
qed

lemma relax_step_frame:
  "relax_step h rdbl es xout xin bj dg w r = Some h' \<Longrightarrow> a \<noteq> xout + unat r \<Longrightarrow> h' a = h a"
  by (auto simp: relax_step_def split: if_splits)

lemma slot_inj_nat:
  fixes S :: nat
  assumes "q * S + r = q' * S + r'" "r < S" "r' < S"
  shows "q = q' \<and> r = r'"
proof -
  from assms(2) have "(q * S + r) div S = q" "(q * S + r) mod S = r" by simp_all
  moreover from assms(3) have "(q' * S + r') div S = q'" "(q' * S + r') mod S = r'" by simp_all
  ultimately show ?thesis using assms(1) by simp
qed

lemma slot_distinct:
  fixes n s i j :: size_t
  assumes n: "n \<noteq> 0" and ns: "n \<le> s" and ij: "i \<noteq> j"
    and oi: "unat (i div n) * unat s < 2 ^ 64" and oj: "unat (j div n) * unat s < 2 ^ 64"
  shows "col_base xb s (i div n) + unat (i mod n) \<noteq> col_base xb s (j div n) + unat (j mod n)"
proof
  assume eq: "col_base xb s (i div n) + unat (i mod n) = col_base xb s (j div n) + unat (j mod n)"
  from n have n0: "0 < n" by (simp add: word_greater_zero_iff)
  from oi have mi: "unat (i div n * s) = unat (i div n) * unat s" by (simp add: unat_mult_lem[symmetric])
  from oj have mj: "unat (j div n * s) = unat (j div n) * unat s" by (simp add: unat_mult_lem[symmetric])
  have ri: "unat (i mod n) < unat s" and rj: "unat (j mod n) < unat s"
    using word_mod_less_divisor[OF n0, of i] word_mod_less_divisor[OF n0, of j] ns
    by (simp_all add: word_less_nat_alt word_le_nat_alt)
  from eq have "unat (i div n) * unat s + unat (i mod n) = unat (j div n) * unat s + unat (j mod n)"
    by (simp add: col_base_def mi mj)
  from slot_inj_nat[OF this ri rj] have "i div n = j div n" "i mod n = j mod n"
    by (simp_all add: word_unat_eq_iff)
  then have "i = j" by (metis word_mod_div_equality)
  with ij show False by simp
qed

lemma sweep_append:
  "sweep f (xs @ ys) h = (case sweep f xs h of None \<Rightarrow> None | Some h' \<Rightarrow> sweep f ys h')"
  by (induction xs arbitrary: h) (auto split: option.split)

lemma sweep_map_cong:
  assumes "\<And>r h. r \<in> set xs \<Longrightarrow> f h (k r) = g h (k' r)"
  shows "sweep f (map k xs) h = sweep g (map k' xs) h"
  using assms
proof (induction xs arbitrary: h)
  case Nil
  show ?case by simp
next
  case (Cons a xs)
  have 1: "f h (k a) = g h (k' a)" by (rule Cons.prems) simp
  have 2: "sweep f (map k xs) h' = sweep g (map k' xs) h'" for h'
    by (rule Cons.IH) (rule Cons.prems, simp)
  show ?case by (simp add: 1 2 cong: option.case_cong)
qed

lemma flat_range_Suc: "flat_range (Suc m) = flat_range m @ [of_nat m]"
  by (simp add: flat_range_def)

lemma flat_range_block:
  "flat_range (n * Suc m) = flat_range (n * m) @ map (\<lambda>r. of_nat (m * n + r)) [0..<n]"
proof -
  have "[0..<n * m + n] = [0..<n * m] @ [n * m..<n * m + n]"
    by (rule upt_add_eq_append) simp
  then have "[0..<n * Suc m] = [0..<n * m] @ [n * m..<n * m + n]"
    by (simp add: add.commute)
  also have "[n * m..<n * m + n] = map (\<lambda>r. m * n + r) [0..<n]"
    by (simp add: map_add_upt mult.commute add.commute)
  finally show ?thesis by (simp add: flat_range_def comp_def)
qed

lemma sweep_columns:
  assumes key: "\<And>j r h. j < m \<Longrightarrow> r < n \<Longrightarrow> E h (of_nat (j * n + r)) = C (of_nat j) h (of_nat r)"
  shows "sweep E (flat_range (n * m)) h = column_sweeps C n (flat_range m) h"
  using key
proof (induction m arbitrary: h)
  case 0
  show ?case by (simp add: flat_range_def column_sweeps_def)
next
  case (Suc m)
  have ih: "sweep E (flat_range (n * m)) h = column_sweeps C n (flat_range m) h"
    by (rule Suc.IH) (rule Suc.prems, simp_all)
  have blk: "sweep E (map (\<lambda>r. of_nat (m * n + r)) [0..<n]) h'
             = sweep (C (of_nat m)) (flat_range n) h'" for h'
    unfolding flat_range_def
    by (rule sweep_map_cong) (simp add: Suc.prems del: of_nat_add of_nat_mult)
  have "sweep E (flat_range (n * Suc m)) h =
          (case column_sweeps C n (flat_range m) h of None \<Rightarrow> None
           | Some h' \<Rightarrow> sweep (C (of_nat m)) (flat_range n) h')"
    by (simp only: flat_range_block sweep_append ih blk)
  also have "\<dots> = column_sweeps C n (flat_range (Suc m)) h"
    by (simp add: column_sweeps_def flat_range_Suc sweep_append split: option.split)
  finally show ?case .
qed

lemma unat_of_nat_small: "k < 2 ^ 64 \<Longrightarrow> unat (of_nat k :: size_t) = k"
  by (simp add: unat_of_nat)

lemma flat_index_decomp:
  fixes N :: size_t
  assumes r: "r < unat N" and b: "j * unat N + r < 2 ^ 64"
  shows "(of_nat (j * unat N + r) :: size_t) mod N = of_nat r"
    and "(of_nat (j * unat N + r) :: size_t) div N = of_nat j"
    and "(of_nat r :: size_t) mod N = of_nat r"
    and "(of_nat r :: size_t) div N = 0"
proof -
  have "unat N < 2 ^ LENGTH(64)" by (rule unsigned_less)
  with r have rb: "r < 2 ^ 64" by simp
  from r have jl: "j \<le> j * unat N" by (cases "unat N") simp_all
  from b have "j * unat N < 2 ^ 64" by (rule add_lessD1)
  with jl have jb: "j < 2 ^ 64" by (rule le_less_trans)
  have ui: "unat (of_nat (j * unat N + r) :: size_t) = j * unat N + r"
    using b by (rule unat_of_nat_small)
  have ur: "unat (of_nat r :: size_t) = r" using rb by (rule unat_of_nat_small)
  have uj: "unat (of_nat j :: size_t) = j" using jb by (rule unat_of_nat_small)
  have 1: "unat ((of_nat (j * unat N + r) :: size_t) mod N) = unat (of_nat r :: size_t)" 
    using r by (simp only: unat_mod ui ur) simp
  have 2: "unat ((of_nat (j * unat N + r) :: size_t) div N) = unat (of_nat j :: size_t)" 
    using r by (simp only: unat_div ui uj) simp
  have 3: "unat ((of_nat r :: size_t) mod N) = unat (of_nat r :: size_t)" 
    using r by (simp only: unat_mod ur) simp
  have 4: "unat ((of_nat r :: size_t) div N) = unat (0 :: size_t)" 
    using r by (simp only: unat_div ur) simp
  from 1 show "(of_nat (j * unat N + r) :: size_t) mod N = of_nat r"
    by (simp only: word_unat_eq_iff)
  from 2 show "(of_nat (j * unat N + r) :: size_t) div N = of_nat j"
    by (simp only: word_unat_eq_iff)
  from 3 show "(of_nat r :: size_t) mod N = of_nat r"
    by (simp only: word_unat_eq_iff)
  from 4 show "(of_nat r :: size_t) div N = 0"
    by (simp only: word_unat_eq_iff)
qed

lemma col_base_0: "col_base (col_base p s j) s 0 = col_base p s j"
  by (simp add: col_base_def)


lemma jacobi1_column:
  assumes "r < unat (DefaultJacobiOp1.numRows op)"
    and "j * unat (DefaultJacobiOp1.numRows op) + r < 2 ^ 64"
  shows "DefaultJacobiOp1_execute op h (of_nat (j * unat (DefaultJacobiOp1.numRows op) + r))
         = DefaultJacobiOp1_execute (column_op1 op (of_nat j)) h (of_nat r)"
proof -
  have n: "DefaultJacobiOp1.numRows (column_op1 op (of_nat j)) = DefaultJacobiOp1.numRows op"
    by (simp add: column_op1_def)
  show ?thesis
    unfolding jacobi1_char n
    by (simp only: flat_index_decomp[OF assms]) (simp add: column_op1_def col_base_0)
qed

lemma jacobi2_column:
  assumes "r < unat (DefaultJacobiOp2.numRows op)"
    and "j * unat (DefaultJacobiOp2.numRows op) + r < 2 ^ 64"
  shows "DefaultJacobiOp2_execute op h (of_nat (j * unat (DefaultJacobiOp2.numRows op) + r))
         = DefaultJacobiOp2_execute (column_op2 op (of_nat j)) h (of_nat r)"
proof -
  have n: "DefaultJacobiOp2.numRows (column_op2 op (of_nat j)) = DefaultJacobiOp2.numRows op"
    by (simp add: column_op2_def)
  show ?thesis
    unfolding jacobi2_char n
    by (simp only: flat_index_decomp[OF assms]) (simp add: column_op2_def col_base_0)
qed

lemma block_bound:
  fixes n m j r :: nat
  assumes "n * m \<le> 2 ^ 64" "j < m" "r < n"
  shows "j * n + r < 2 ^ 64"
proof -
  from assms(2) have "Suc j \<le> m" by simp
  then have "Suc j * n \<le> m * n" by (rule mult_le_mono1)
  with assms(3) have "j * n + r < m * n" by simp
  with assms(1) show ?thesis by (simp add: mult.commute)
qed

lemma stored_step:
  assumes "lo < hi"
  shows "stored ix vs h lo hi \<longleftrightarrow>
     (lo < length ix \<and> valid_col (ix ! lo) \<and> h (vs + lo) \<noteq> None) \<and> stored ix vs h (Suc lo) hi"
proof -
  from assms have "{lo..<hi} = insert lo {Suc lo..<hi}" by auto
  then show ?thesis unfolding stored_def by simp
qed

lemma extract_loop1_find:
  assumes "rd offs (row + 1) = Some hi" and "stored ix vs h (unat c) (unat hi)"
  shows "extract_loop1 offs ix vs dg h row c =
           (case first_diag (row_entries ix vs h (unat c) (unat hi)) row of
              None \<Rightarrow> Some h | Some v \<Rightarrow> st h (dg + unat row) v)"
  using assms
proof (induction offs ix vs dg h row c rule: extract_loop1.induct)
  case (1 offs ix vs dg h row c)
  note hi = "1.prems"(1) and sto = "1.prems"(2)
  show ?case
  proof (cases "c < hi")
    case False
    then have "unat hi \<le> unat c" by (simp add: word_less_nat_alt)
    then have "row_entries ix vs h (unat c) (unat hi) = []" by (rule row_entries_empty)
    moreover have "extract_loop1 offs ix vs dg h row c = Some h"
      using False hi by (subst extract_loop1.simps) simp
    ultimately show ?thesis by (simp add: first_diag_def)
  next
    case True
    then have u: "unat (c + 1) = Suc (unat c)" by (rule unat_inc_less)
    from True have lt: "unat c < unat hi" by (simp add: word_less_nat_alt)
    from sto have f: "unat c < length ix" "valid_col (ix ! unat c)" "h (vs + unat c) \<noteq> None"
      "stored ix vs h (Suc (unat c)) (unat hi)"
      by (simp_all add: stored_step[OF lt])
    then have r: "rd ix c = Some (ix ! unat c)" by (simp add: rd_def)
    from f obtain v where v: "h (vs + unat c) = Some v" by auto
    have step: "extract_loop1 offs ix vs dg h row c =
      (if row = word_of_int (ix ! unat c) then st h (dg + unat row) v
       else extract_loop1 offs ix vs dg h row (c + 1))"
      using hi True r v by (subst extract_loop1.simps) (simp add: ld_def)
    show ?thesis
    proof (cases "ix ! unat c = uint row")
      case True
      then show ?thesis unfolding step
        by (simp add: row_entries_step[OF lt] first_diag_def v)
    next
      case False
      with f have ne: "row \<noteq> word_of_int (ix ! unat c)" by (simp add: valid_col_cast)
      have "extract_loop1 offs ix vs dg h row (c + 1) =
           (case first_diag (row_entries ix vs h (Suc (unat c)) (unat hi)) row of
              None \<Rightarrow> Some h | Some v \<Rightarrow> st h (dg + unat row) v)"
        using "1.IH"[OF hi \<open>c < hi\<close> r ne hi] f(4) by (simp add: u)
      then show ?thesis unfolding step using ne False
        by (simp add: row_entries_step[OF lt] first_diag_def)
    qed
  qed
qed

lemma extract_loop2_find:
  assumes "rd ne row = Some n" and "stored curind curval h (unat j) (unat n)"
  shows "extract_loop2 ne curind curval dg h row j =
           (case first_diag (row_entries curind curval h (unat j) (unat n)) row of
              None \<Rightarrow> Some h | Some v \<Rightarrow> st h (dg + unat row) v)"
  using assms
proof (induction ne curind curval dg h row j rule: extract_loop2.induct)
  case (1 ne curind curval dg h row j)
  note n = "1.prems"(1) and sto = "1.prems"(2)
  show ?case
  proof (cases "j < n")
    case False
    then have "unat n \<le> unat j" by (simp add: word_less_nat_alt)
    then have "row_entries curind curval h (unat j) (unat n) = []" by (rule row_entries_empty)
    moreover have "extract_loop2 ne curind curval dg h row j = Some h"
      using False n by (subst extract_loop2.simps) simp
    ultimately show ?thesis by (simp add: first_diag_def)
  next
    case True
    then have u: "unat (j + 1) = Suc (unat j)" by (rule unat_inc_less)
    from True have lt: "unat j < unat n" by (simp add: word_less_nat_alt)
    from sto have f: "unat j < length curind" "valid_col (curind ! unat j)"
      "h (curval + unat j) \<noteq> None" "stored curind curval h (Suc (unat j)) (unat n)"
      by (simp_all add: stored_step[OF lt])
    then have r: "rd curind j = Some (curind ! unat j)" by (simp add: rd_def)
    from f obtain v where v: "h (curval + unat j) = Some v" by auto
    have step: "extract_loop2 ne curind curval dg h row j =
      (if row = word_of_int (curind ! unat j) then st h (dg + unat row) v
       else extract_loop2 ne curind curval dg h row (j + 1))"
      using n True r v by (subst extract_loop2.simps) (simp add: ld_def)
    show ?thesis
    proof (cases "curind ! unat j = uint row")
      case True
      then show ?thesis unfolding step
        by (simp add: row_entries_step[OF lt] first_diag_def v)
    next
      case False
      with f have ne: "row \<noteq> word_of_int (curind ! unat j)" by (simp add: valid_col_cast)
      have "extract_loop2 ne curind curval dg h row (j + 1) =
           (case first_diag (row_entries curind curval h (Suc (unat j)) (unat n)) row of
              None \<Rightarrow> Some h | Some v \<Rightarrow> st h (dg + unat row) v)"
        using "1.IH"[OF n \<open>j < n\<close> r ne n] f(4) by (simp add: u)
      then show ?thesis unfolding step using ne False
        by (simp add: row_entries_step[OF lt] first_diag_def)
    qed
  qed
qed


lemma row_entries_cong:
  "(\<And>k. lo \<le> k \<Longrightarrow> k < hi \<Longrightarrow> h (vs + k) = h' (vs + k)) \<Longrightarrow>
   row_entries ix vs h lo hi = row_entries ix vs h' lo hi"
  by (simp add: row_entries_def)

lemma stored_cong:
  "(\<And>k. lo \<le> k \<Longrightarrow> k < hi \<Longrightarrow> h (vs + k) = h' (vs + k)) \<Longrightarrow>
   stored ix vs h lo hi = stored ix vs h' lo hi"
  by (simp add: stored_def)

lemma row_index:
  fixes N :: size_t
  assumes "r < unat N"
  shows "unat (of_nat r :: size_t) = r" and "unat ((of_nat r :: size_t) + 1) = Suc r"
    and "(of_nat r :: size_t) < N"
proof -
  have "unat N < 2 ^ LENGTH(64)" by (rule unsigned_less)
  with assms have "r < 2 ^ 64" by simp
  then show u: "unat (of_nat r :: size_t) = r" by (rule unat_of_nat_small)
  from assms u show lt: "(of_nat r :: size_t) < N" by (simp add: word_less_nat_alt)
  from unat_inc_less[OF lt] u show "unat ((of_nat r :: size_t) + 1) = Suc r" by simp
qed

text \<open>A sweep of writes into the slots \<open>dg + r\<close>, one row after the other.\<close>

lemma slot_sweep:
  fixes E :: "'a heap \<Rightarrow> size_t \<Rightarrow> 'a heap option" and fd :: "nat \<Rightarrow> 'a option"
  assumes step: "\<And>h r. r < N \<Longrightarrow> (\<forall>a. a < dg \<or> dg + N \<le> a \<longrightarrow> h a = h0 a) \<Longrightarrow>
        (\<forall>r<N. h (dg + r) \<noteq> None) \<Longrightarrow>
        E h (of_nat r) = Some (case fd r of None \<Rightarrow> h | Some v \<Rightarrow> h(dg + r \<mapsto> v))"
    and alloc: "\<forall>r<N. h0 (dg + r) \<noteq> None"
    and k: "k \<le> N"
  shows "\<exists>h'. sweep E (flat_range k) h0 = Some h' \<and>
           (\<forall>a. a < dg \<or> dg + k \<le> a \<longrightarrow> h' a = h0 a) \<and>
           (\<forall>r<N. h' (dg + r) \<noteq> None) \<and>
           (\<forall>r<k. h' (dg + r) = (case fd r of None \<Rightarrow> h0 (dg + r) | Some v \<Rightarrow> Some v))"
  using k
proof (induction k)
  case 0
  show ?case using alloc by (simp add: flat_range_def)
next
  case (Suc k)
  then have kN: "k < N" and "k \<le> N" by simp_all
  from Suc.IH[OF \<open>k \<le> N\<close>] obtain h' where
    sw: "sweep E (flat_range k) h0 = Some h'"
    and fr: "\<forall>a. a < dg \<or> dg + k \<le> a \<longrightarrow> h' a = h0 a"
    and al: "\<forall>r<N. h' (dg + r) \<noteq> None"
    and va: "\<forall>r<k. h' (dg + r) = (case fd r of None \<Rightarrow> h0 (dg + r) | Some v \<Rightarrow> Some v)"
    by blast
  from fr kN have fr': "\<forall>a. a < dg \<or> dg + N \<le> a \<longrightarrow> h' a = h0 a" by auto
  define h'' where "h'' = (case fd k of None \<Rightarrow> h' | Some v \<Rightarrow> h'(dg + k \<mapsto> v))"
  have st: "E h' (of_nat k) = Some h''"
    unfolding h''_def by (rule step[OF kN fr' al])
  have sw': "sweep E (flat_range (Suc k)) h0 = Some h''"
    by (simp add: flat_range_Suc sweep_append sw st)
  have 1: "\<forall>a. a < dg \<or> dg + Suc k \<le> a \<longrightarrow> h'' a = h0 a"
    using fr by (auto simp: h''_def split: option.split)
  have 2: "\<forall>r<N. h'' (dg + r) \<noteq> None"
    using al by (auto simp: h''_def split: option.split)
  have 3: "\<forall>r<Suc k. h'' (dg + r) = (case fd r of None \<Rightarrow> h0 (dg + r) | Some v \<Rightarrow> Some v)"
  proof (intro allI impI)
    fix r assume "r < Suc k"
    show "h'' (dg + r) = (case fd r of None \<Rightarrow> h0 (dg + r) | Some v \<Rightarrow> Some v)"
    proof (cases "r = k")
      case True
      from fr have "h' (dg + k) = h0 (dg + k)" by simp
      then show ?thesis using True by (simp add: h''_def split: option.split)
    next
      case False
      with \<open>r < Suc k\<close> have "r < k" by simp
      with va have "h' (dg + r) = (case fd r of None \<Rightarrow> h0 (dg + r) | Some v \<Rightarrow> Some v)"
        by simp
      moreover from False have "h'' (dg + r) = h' (dg + r)"
        by (simp add: h''_def split: option.split)
      ultimately show ?thesis by simp
    qed
  qed
  from sw' 1 2 3 show ?case by blast
qed

lemma extract1_step:
  fixes e :: ExtractDiagonalOp1 and h h0 :: "'a heap"
  defines "N \<equiv> unat (ExtractDiagonalOp1.numRows e)"
  defines "dg \<equiv> ExtractDiagonalOp1.diag e"
  assumes len: "length (ExtractDiagonalOp1.offsets e) = Suc N"
    and r: "r < N"
    and sto: "stored (ExtractDiagonalOp1.inds e) (ExtractDiagonalOp1.vals e) h0
                (unat (ExtractDiagonalOp1.offsets e ! r)) (unat (ExtractDiagonalOp1.offsets e ! Suc r))"
    and sep: "\<forall>k\<in>{unat (ExtractDiagonalOp1.offsets e ! r)..<unat (ExtractDiagonalOp1.offsets e ! Suc r)}.
                ExtractDiagonalOp1.vals e + k < dg \<or> dg + N \<le> ExtractDiagonalOp1.vals e + k"
    and fr: "\<forall>a. a < dg \<or> dg + N \<le> a \<longrightarrow> h a = h0 a"
    and al: "\<forall>r<N. h (dg + r) \<noteq> None"
  shows "ExtractDiagonalOp1_execute e h (of_nat r) =
     Some (case first_diag (entries1 (ExtractDiagonalOp1.offsets e) (ExtractDiagonalOp1.inds e)
                  (ExtractDiagonalOp1.vals e) h0 (of_nat r)) (of_nat r) of
             None \<Rightarrow> h | Some v \<Rightarrow> h(dg + r \<mapsto> v))"
proof -
  note ri = row_index[of r "ExtractDiagonalOp1.numRows e", folded N_def, OF r]
  let ?lo = "unat (ExtractDiagonalOp1.offsets e ! r)"
  let ?hi = "unat (ExtractDiagonalOp1.offsets e ! Suc r)"
  have same: "h (ExtractDiagonalOp1.vals e + k) = h0 (ExtractDiagonalOp1.vals e + k)"
    if "?lo \<le> k" "k < ?hi" for k
    using that sep fr by auto
  have rd1: "rd (ExtractDiagonalOp1.offsets e) (of_nat r) = Some (ExtractDiagonalOp1.offsets e ! r)"
    and rd2: "rd (ExtractDiagonalOp1.offsets e) (of_nat r + 1) = Some (ExtractDiagonalOp1.offsets e ! Suc r)"
    using len r by (simp_all add: rd_def ri)
  have sto': "stored (ExtractDiagonalOp1.inds e) (ExtractDiagonalOp1.vals e) h ?lo ?hi"
    using sto stored_cong[of ?lo ?hi h "ExtractDiagonalOp1.vals e" h0, OF same] by simp
  have ent: "row_entries (ExtractDiagonalOp1.inds e) (ExtractDiagonalOp1.vals e) h ?lo ?hi
      = entries1 (ExtractDiagonalOp1.offsets e) (ExtractDiagonalOp1.inds e)
                  (ExtractDiagonalOp1.vals e) h0 (of_nat r)"
    unfolding entries1_def ri by (rule row_entries_cong) (rule same)
  from al r have "h (dg + r) \<noteq> None" by simp
  then show ?thesis
    unfolding ExtractDiagonalOp1_execute_def
    by (auto simp add: rd1 extract_loop1_find[OF rd2 sto'] ent ri st_def dg_def split: option.split)
qed

lemma extract2_step:
  fixes e :: ExtractDiagonalOp2 and h h0 :: "'a heap"
  defines "N \<equiv> unat (ExtractDiagonalOp2.numRows e)"
  defines "dg \<equiv> ExtractDiagonalOp2.diag e"
  assumes len: "length (ExtractDiagonalOp2.inds_beg e) = N" "length (ExtractDiagonalOp2.vals_beg e) = N"
      "length (ExtractDiagonalOp2.numEntries e) = N"
    and r: "r < N"
    and sto: "stored (ExtractDiagonalOp2.inds_beg e ! r) (ExtractDiagonalOp2.vals_beg e ! r) h0
                0 (unat (ExtractDiagonalOp2.numEntries e ! r))"
    and sep: "\<forall>k\<in>{0..<unat (ExtractDiagonalOp2.numEntries e ! r)}.
                ExtractDiagonalOp2.vals_beg e ! r + k < dg \<or> dg + N \<le> ExtractDiagonalOp2.vals_beg e ! r + k"
    and fr: "\<forall>a. a < dg \<or> dg + N \<le> a \<longrightarrow> h a = h0 a"
    and al: "\<forall>r<N. h (dg + r) \<noteq> None"
  shows "ExtractDiagonalOp2_execute e h (of_nat r) =
     Some (case first_diag (entries2 (ExtractDiagonalOp2.inds_beg e) (ExtractDiagonalOp2.vals_beg e)
                  (ExtractDiagonalOp2.numEntries e) h0 (of_nat r)) (of_nat r) of
             None \<Rightarrow> h | Some v \<Rightarrow> h(dg + r \<mapsto> v))"
proof -
  note ri = row_index[of r "ExtractDiagonalOp2.numRows e", folded N_def, OF r]
  let ?hi = "unat (ExtractDiagonalOp2.numEntries e ! r)"
  let ?vs = "ExtractDiagonalOp2.vals_beg e ! r"
  let ?ix = "ExtractDiagonalOp2.inds_beg e ! r"
  have same: "h (?vs + k) = h0 (?vs + k)" if "0 \<le> k" "k < ?hi" for k
    using that sep fr by auto
  have rd1: "rd (ExtractDiagonalOp2.inds_beg e) (of_nat r) = Some ?ix"
    and rd2: "rd (ExtractDiagonalOp2.vals_beg e) (of_nat r) = Some ?vs"
    and rd3: "rd (ExtractDiagonalOp2.numEntries e) (of_nat r) = Some (ExtractDiagonalOp2.numEntries e ! r)"
    using len r by (simp_all add: rd_def ri)
  have sto': "stored ?ix ?vs h (unat (0 :: size_t)) ?hi"
    using sto stored_cong[of 0 ?hi h ?vs h0, OF same] by simp
  have ent: "row_entries ?ix ?vs h 0 ?hi
      = entries2 (ExtractDiagonalOp2.inds_beg e) (ExtractDiagonalOp2.vals_beg e)
                  (ExtractDiagonalOp2.numEntries e) h0 (of_nat r)"
    unfolding entries2_def ri by (rule row_entries_cong) (rule same)
  have loop: "extract_loop2 (ExtractDiagonalOp2.numEntries e) ?ix ?vs dg h (of_nat r) 0 =
      (case first_diag (entries2 (ExtractDiagonalOp2.inds_beg e) (ExtractDiagonalOp2.vals_beg e)
                  (ExtractDiagonalOp2.numEntries e) h0 (of_nat r)) (of_nat r) of
         None \<Rightarrow> Some h | Some v \<Rightarrow> st h (dg + r) v)"
    using extract_loop2_find[OF rd3 sto', of dg, unfolded ri] by (simp add: ent)
  from al r have "h (dg + r) \<noteq> None" by simp
  then show ?thesis
    unfolding ExtractDiagonalOp2_execute_def
    by (auto simp add: rd1 rd2 loop[unfolded dg_def] st_def dg_def split: option.split)
qed


section \<open>Claims\<close>

text \<open>
  C3.  For a row \<open>r\<close> below \<open>numRows\<close>: if the row has an entry whose column index is \<open>r\<close>,
  the diagonal extractor of either format stores the value of the first such entry, in
  storage order, into \<open>diag[r]\<close>, and it reads no entry behind that one (nothing is asked
  of the positions after \<open>k\<close>); if the row has no such entry, the empty row included, the
  store is left exactly as it was.  The column indices scanned are valid \<^verbatim>\<open>size_t\<close> values.
\<close>

theorem extract_diagonal_first_match:
  "(length (ExtractDiagonalOp1.offsets op1) = Suc (unat (ExtractDiagonalOp1.numRows op1)) \<longrightarrow>
    r < ExtractDiagonalOp1.numRows op1 \<longrightarrow>
      (\<forall>k v. first_diag_at (ExtractDiagonalOp1.inds op1) r
                (unat (ExtractDiagonalOp1.offsets op1 ! unat r)) k \<and>
             k < unat (ExtractDiagonalOp1.offsets op1 ! unat (r + 1)) \<and>
             h (ExtractDiagonalOp1.vals op1 + k) = Some v \<and>
             h (ExtractDiagonalOp1.diag op1 + unat r) \<noteq> None \<longrightarrow>
             ExtractDiagonalOp1_execute op1 h r
               = Some (h(ExtractDiagonalOp1.diag op1 + unat r \<mapsto> v))) \<and>
      (no_diag (ExtractDiagonalOp1.inds op1) r
          (unat (ExtractDiagonalOp1.offsets op1 ! unat r))
          (unat (ExtractDiagonalOp1.offsets op1 ! unat (r + 1))) \<longrightarrow>
       ExtractDiagonalOp1_execute op1 h r = Some h)) \<and>
   (length (ExtractDiagonalOp2.inds_beg op2) = unat (ExtractDiagonalOp2.numRows op2) \<longrightarrow>
    length (ExtractDiagonalOp2.vals_beg op2) = unat (ExtractDiagonalOp2.numRows op2) \<longrightarrow>
    length (ExtractDiagonalOp2.numEntries op2) = unat (ExtractDiagonalOp2.numRows op2) \<longrightarrow>
    r < ExtractDiagonalOp2.numRows op2 \<longrightarrow>
      (\<forall>k v. first_diag_at (ExtractDiagonalOp2.inds_beg op2 ! unat r) r 0 k \<and>
             k < unat (ExtractDiagonalOp2.numEntries op2 ! unat r) \<and>
             h (ExtractDiagonalOp2.vals_beg op2 ! unat r + k) = Some v \<and>
             h (ExtractDiagonalOp2.diag op2 + unat r) \<noteq> None \<longrightarrow>
             ExtractDiagonalOp2_execute op2 h r
               = Some (h(ExtractDiagonalOp2.diag op2 + unat r \<mapsto> v))) \<and>
      (no_diag (ExtractDiagonalOp2.inds_beg op2 ! unat r) r 0
          (unat (ExtractDiagonalOp2.numEntries op2 ! unat r)) \<longrightarrow>
       ExtractDiagonalOp2_execute op2 h r = Some h))"
proof (intro conjI impI allI)
  fix k v
  assume len: "length (ExtractDiagonalOp1.offsets op1) = Suc (unat (ExtractDiagonalOp1.numRows op1))"
    and r: "r < ExtractDiagonalOp1.numRows op1"
    and m: "first_diag_at (ExtractDiagonalOp1.inds op1) r
                (unat (ExtractDiagonalOp1.offsets op1 ! unat r)) k \<and>
             k < unat (ExtractDiagonalOp1.offsets op1 ! unat (r + 1)) \<and>
             h (ExtractDiagonalOp1.vals op1 + k) = Some v \<and>
             h (ExtractDiagonalOp1.diag op1 + unat r) \<noteq> None"
  from r have u: "unat (r + 1) = Suc (unat r)" by (rule unat_inc_less)
  from r have "unat r < unat (ExtractDiagonalOp1.numRows op1)" by (simp add: word_less_nat_alt)
  with len u have rd1: "rd (ExtractDiagonalOp1.offsets op1) r = Some (ExtractDiagonalOp1.offsets op1 ! unat r)"
    and rd2: "rd (ExtractDiagonalOp1.offsets op1) (r + 1) = Some (ExtractDiagonalOp1.offsets op1 ! unat (r + 1))"
    by (simp_all add: rd_def)
  show "ExtractDiagonalOp1_execute op1 h r = Some (h(ExtractDiagonalOp1.diag op1 + unat r \<mapsto> v))"
    using m
    by (simp add: ExtractDiagonalOp1_execute_def rd1 st_def
          extract_loop1_match[OF rd2 conjunct1[OF m] conjunct1[OF conjunct2[OF m]]])
next
  assume len: "length (ExtractDiagonalOp1.offsets op1) = Suc (unat (ExtractDiagonalOp1.numRows op1))"
    and r: "r < ExtractDiagonalOp1.numRows op1"
    and m: "no_diag (ExtractDiagonalOp1.inds op1) r
          (unat (ExtractDiagonalOp1.offsets op1 ! unat r))
          (unat (ExtractDiagonalOp1.offsets op1 ! unat (r + 1)))"
  from r have u: "unat (r + 1) = Suc (unat r)" by (rule unat_inc_less)
  from r have "unat r < unat (ExtractDiagonalOp1.numRows op1)" by (simp add: word_less_nat_alt)
  with len u have rd1: "rd (ExtractDiagonalOp1.offsets op1) r = Some (ExtractDiagonalOp1.offsets op1 ! unat r)"
    and rd2: "rd (ExtractDiagonalOp1.offsets op1) (r + 1) = Some (ExtractDiagonalOp1.offsets op1 ! unat (r + 1))"
    by (simp_all add: rd_def)
  show "ExtractDiagonalOp1_execute op1 h r = Some h"
    by (simp add: ExtractDiagonalOp1_execute_def rd1 extract_loop1_nomatch[OF rd2 m])
next
  fix k v
  assume len: "length (ExtractDiagonalOp2.inds_beg op2) = unat (ExtractDiagonalOp2.numRows op2)"
    "length (ExtractDiagonalOp2.vals_beg op2) = unat (ExtractDiagonalOp2.numRows op2)"
    "length (ExtractDiagonalOp2.numEntries op2) = unat (ExtractDiagonalOp2.numRows op2)"
    and r: "r < ExtractDiagonalOp2.numRows op2"
    and m: "first_diag_at (ExtractDiagonalOp2.inds_beg op2 ! unat r) r 0 k \<and>
             k < unat (ExtractDiagonalOp2.numEntries op2 ! unat r) \<and>
             h (ExtractDiagonalOp2.vals_beg op2 ! unat r + k) = Some v \<and>
             h (ExtractDiagonalOp2.diag op2 + unat r) \<noteq> None"
  from r have "unat r < unat (ExtractDiagonalOp2.numRows op2)" by (simp add: word_less_nat_alt)
  with len have rd1: "rd (ExtractDiagonalOp2.inds_beg op2) r = Some (ExtractDiagonalOp2.inds_beg op2 ! unat r)"
    and rd2: "rd (ExtractDiagonalOp2.vals_beg op2) r = Some (ExtractDiagonalOp2.vals_beg op2 ! unat r)"
    and rd3: "rd (ExtractDiagonalOp2.numEntries op2) r = Some (ExtractDiagonalOp2.numEntries op2 ! unat r)"
    by (simp_all add: rd_def)
  show "ExtractDiagonalOp2_execute op2 h r = Some (h(ExtractDiagonalOp2.diag op2 + unat r \<mapsto> v))"
    using m extract_loop2_match[OF rd3, where j = 0 and k = k
        and curind = "ExtractDiagonalOp2.inds_beg op2 ! unat r"
        and curval = "ExtractDiagonalOp2.vals_beg op2 ! unat r"
        and dg = "ExtractDiagonalOp2.diag op2" and h = h]
    by (simp add: ExtractDiagonalOp2_execute_def rd1 rd2 st_def)
next
  assume len: "length (ExtractDiagonalOp2.inds_beg op2) = unat (ExtractDiagonalOp2.numRows op2)"
    "length (ExtractDiagonalOp2.vals_beg op2) = unat (ExtractDiagonalOp2.numRows op2)"
    "length (ExtractDiagonalOp2.numEntries op2) = unat (ExtractDiagonalOp2.numRows op2)"
    and r: "r < ExtractDiagonalOp2.numRows op2"
    and m: "no_diag (ExtractDiagonalOp2.inds_beg op2 ! unat r) r 0
          (unat (ExtractDiagonalOp2.numEntries op2 ! unat r))"
  from r have "unat r < unat (ExtractDiagonalOp2.numRows op2)" by (simp add: word_less_nat_alt)
  with len have rd1: "rd (ExtractDiagonalOp2.inds_beg op2) r = Some (ExtractDiagonalOp2.inds_beg op2 ! unat r)"
    and rd2: "rd (ExtractDiagonalOp2.vals_beg op2) r = Some (ExtractDiagonalOp2.vals_beg op2 ! unat r)"
    and rd3: "rd (ExtractDiagonalOp2.numEntries op2) r = Some (ExtractDiagonalOp2.numEntries op2 ! unat r)"
    by (simp_all add: rd_def)
  show "ExtractDiagonalOp2_execute op2 h r = Some h"
    using m extract_loop2_nomatch[OF rd3, where j = 0
        and curind = "ExtractDiagonalOp2.inds_beg op2 ! unat r"
        and curval = "ExtractDiagonalOp2.vals_beg op2 ! unat r"
        and dg = "ExtractDiagonalOp2.diag op2" and h = h]
    by (simp add: ExtractDiagonalOp2_execute_def rd1 rd2)
qed


theorem extract_diagonal_first_match_witness:
  "first_diag_at (ExtractDiagonalOp1.inds scenario_extract1) 1 2 3 \<and>
   ExtractDiagonalOp1_execute scenario_extract1 scenario_mem 1 = Some (scenario_mem(8 \<mapsto> 3)) \<and>
   no_diag (ExtractDiagonalOp1.inds nodiag_extract1) 0 0 2 \<and>
   ExtractDiagonalOp1_execute nodiag_extract1 scenario_mem 0 = Some scenario_mem \<and>
   first_diag_at (ExtractDiagonalOp2.inds_beg scenario_extract2 ! 1) 1 0 1 \<and>
   ExtractDiagonalOp2_execute scenario_extract2 scenario_mem 1 = Some (scenario_mem(8 \<mapsto> 3)) \<and>
   no_diag (ExtractDiagonalOp2.inds_beg nodiag_extract2 ! 0) 0 0 2 \<and>
   ExtractDiagonalOp2_execute nodiag_extract2 scenario_mem 0 = Some scenario_mem"
proof -
  note thm1 = extract_diagonal_first_match[of scenario_extract1 1 scenario_mem scenario_extract2]
  note thm0 = extract_diagonal_first_match[of nodiag_extract1 0 scenario_mem nodiag_extract2]
  have a1: "length (ExtractDiagonalOp1.offsets scenario_extract1)
              = Suc (unat (ExtractDiagonalOp1.numRows scenario_extract1))"
    and b1: "1 < ExtractDiagonalOp1.numRows scenario_extract1"
    by (simp_all add: scenario_extract1_def)
  have c1: "first_diag_at (ExtractDiagonalOp1.inds scenario_extract1) 1
              (unat (ExtractDiagonalOp1.offsets scenario_extract1 ! unat (1 :: size_t))) 3 \<and>
            3 < unat (ExtractDiagonalOp1.offsets scenario_extract1 ! unat ((1 :: size_t) + 1)) \<and>
            scenario_mem (ExtractDiagonalOp1.vals scenario_extract1 + 3) = Some 3 \<and>
            scenario_mem (ExtractDiagonalOp1.diag scenario_extract1 + unat (1 :: size_t)) \<noteq> None"
    by (simp add: scenario_extract1_def scenario_mem_def mem_of_def first_diag_at_def valid_col_def)
  have r1: "ExtractDiagonalOp1_execute scenario_extract1 scenario_mem 1 = Some (scenario_mem(8 \<mapsto> 3))"
    using thm1[THEN conjunct1, rule_format, OF a1 b1, THEN conjunct1, rule_format, OF c1]
    by (simp add: scenario_extract1_def)
  have a0: "length (ExtractDiagonalOp1.offsets nodiag_extract1)
              = Suc (unat (ExtractDiagonalOp1.numRows nodiag_extract1))"
    and b0: "0 < ExtractDiagonalOp1.numRows nodiag_extract1"
    by (simp_all add: nodiag_extract1_def)
  have c0: "no_diag (ExtractDiagonalOp1.inds nodiag_extract1) 0
              (unat (ExtractDiagonalOp1.offsets nodiag_extract1 ! unat (0 :: size_t)))
              (unat (ExtractDiagonalOp1.offsets nodiag_extract1 ! unat ((0 :: size_t) + 1)))"
    by code_simp
  have r0: "ExtractDiagonalOp1_execute nodiag_extract1 scenario_mem 0 = Some scenario_mem"
    using thm0[THEN conjunct1, rule_format, OF a0 b0, THEN conjunct2, rule_format, OF c0] .
  have a2: "length (ExtractDiagonalOp2.inds_beg scenario_extract2) = unat (ExtractDiagonalOp2.numRows scenario_extract2)"
    "length (ExtractDiagonalOp2.vals_beg scenario_extract2) = unat (ExtractDiagonalOp2.numRows scenario_extract2)"
    "length (ExtractDiagonalOp2.numEntries scenario_extract2) = unat (ExtractDiagonalOp2.numRows scenario_extract2)"
    "1 < ExtractDiagonalOp2.numRows scenario_extract2"
    by (simp_all add: scenario_extract2_def)
  have c2: "first_diag_at (ExtractDiagonalOp2.inds_beg scenario_extract2 ! unat (1 :: size_t)) 1 0 1 \<and>
            1 < unat (ExtractDiagonalOp2.numEntries scenario_extract2 ! unat (1 :: size_t)) \<and>
            scenario_mem (ExtractDiagonalOp2.vals_beg scenario_extract2 ! unat (1 :: size_t) + 1) = Some 3 \<and>
            scenario_mem (ExtractDiagonalOp2.diag scenario_extract2 + unat (1 :: size_t)) \<noteq> None"
    by (simp add: scenario_extract2_def scenario_mem_def mem_of_def first_diag_at_def valid_col_def)
  have r2: "ExtractDiagonalOp2_execute scenario_extract2 scenario_mem 1 = Some (scenario_mem(8 \<mapsto> 3))"
    using thm1[THEN conjunct2, rule_format, OF a2, THEN conjunct1, rule_format, OF c2]
    by (simp add: scenario_extract2_def)
  have a3: "length (ExtractDiagonalOp2.inds_beg nodiag_extract2) = unat (ExtractDiagonalOp2.numRows nodiag_extract2)"
    "length (ExtractDiagonalOp2.vals_beg nodiag_extract2) = unat (ExtractDiagonalOp2.numRows nodiag_extract2)"
    "length (ExtractDiagonalOp2.numEntries nodiag_extract2) = unat (ExtractDiagonalOp2.numRows nodiag_extract2)"
    "0 < ExtractDiagonalOp2.numRows nodiag_extract2"
    by (simp_all add: nodiag_extract2_def)
  have c3: "no_diag (ExtractDiagonalOp2.inds_beg nodiag_extract2 ! unat (0 :: size_t)) 0 0
              (unat (ExtractDiagonalOp2.numEntries nodiag_extract2 ! unat (0 :: size_t)))"
    by code_simp
  have r3: "ExtractDiagonalOp2_execute nodiag_extract2 scenario_mem 0 = Some scenario_mem"
    using thm0[THEN conjunct2, rule_format, OF a3, THEN conjunct2, rule_format, OF c3] .
  have d: "first_diag_at (ExtractDiagonalOp1.inds scenario_extract1) 1 2 3"
    "no_diag (ExtractDiagonalOp1.inds nodiag_extract1) 0 0 2"
    "first_diag_at (ExtractDiagonalOp2.inds_beg scenario_extract2 ! 1) 1 0 1"
    "no_diag (ExtractDiagonalOp2.inds_beg nodiag_extract2 ! 0) 0 0 2"
    by code_simp+
  from r1 r0 r2 r3 d show ?thesis by simp
qed

text \<open>
  C2.  A flat index \<open>i\<close> is decomposed as \<open>r = i mod numRows\<close> and \<open>rhs = i div numRows\<close>.
  When the row is readable and \<open>diag[r]\<close> holds a nonzero \<open>d\<close>, one Jacobi update of either
  format stores \<open>x0[r,rhs] + \<omega> * tmp / d\<close> into \<open>x[r,rhs]\<close>, where \<open>tmp\<close> is \<open>b[r,rhs]\<close> minus the
  sum of \<open>v * x0[c,rhs]\<close> over all the entries \<open>(c, v)\<close> of the row, the diagonal one included;
  every value is read from the store as it was before the update.
\<close>

theorem jacobi_update:
  "(DefaultJacobiOp1.numRows op1 \<noteq> 0 \<longrightarrow>
    length (DefaultJacobiOp1.offsets op1) = Suc (unat (DefaultJacobiOp1.numRows op1)) \<longrightarrow>
    r = i mod DefaultJacobiOp1.numRows op1 \<longrightarrow>
    rhs = i div DefaultJacobiOp1.numRows op1 \<longrightarrow>
    xj = col_base (DefaultJacobiOp1.x op1) (DefaultJacobiOp1.xstride op1) rhs \<longrightarrow>
    x0j = col_base (DefaultJacobiOp1.x0 op1) (DefaultJacobiOp1.xstride op1) rhs \<longrightarrow>
    bj = col_base (DefaultJacobiOp1.b op1) (DefaultJacobiOp1.bstride op1) rhs \<longrightarrow>
    reads_ok (DefaultJacobiOp1.inds op1) (DefaultJacobiOp1.vals op1) h x0j
      (unat (DefaultJacobiOp1.offsets op1 ! unat r))
      (unat (DefaultJacobiOp1.offsets op1 ! unat (r + 1))) \<longrightarrow>
    h (x0j + unat r) = Some xv \<longrightarrow>
    h (bj + unat r) = Some bv \<longrightarrow>
    h (DefaultJacobiOp1.diag op1 + unat r) = Some d \<longrightarrow>
    d \<noteq> 0 \<longrightarrow>
    h (xj + unat r) \<noteq> None \<longrightarrow>
    DefaultJacobiOp1_execute op1 h i =
      Some (h(xj + unat r \<mapsto>
        xv + DefaultJacobiOp1.damping_factor op1
             * (bv - (\<Sum>(c, v)\<leftarrow>entries1 (DefaultJacobiOp1.offsets op1) (DefaultJacobiOp1.inds op1) (DefaultJacobiOp1.vals op1) h r.
                 v * the (ldo h x0j c))) / d))) \<and>
   (DefaultJacobiOp2.numRows op2 \<noteq> 0 \<longrightarrow>
    length (DefaultJacobiOp2.inds_beg op2) = unat (DefaultJacobiOp2.numRows op2) \<longrightarrow>
    length (DefaultJacobiOp2.vals_beg op2) = unat (DefaultJacobiOp2.numRows op2) \<longrightarrow>
    length (DefaultJacobiOp2.numEntries op2) = unat (DefaultJacobiOp2.numRows op2) \<longrightarrow>
    r = i mod DefaultJacobiOp2.numRows op2 \<longrightarrow>
    rhs = i div DefaultJacobiOp2.numRows op2 \<longrightarrow>
    xj = col_base (DefaultJacobiOp2.x op2) (DefaultJacobiOp2.xstride op2) rhs \<longrightarrow>
    x0j = col_base (DefaultJacobiOp2.x0 op2) (DefaultJacobiOp2.xstride op2) rhs \<longrightarrow>
    bj = col_base (DefaultJacobiOp2.b op2) (DefaultJacobiOp2.bstride op2) rhs \<longrightarrow>
    reads_ok (DefaultJacobiOp2.inds_beg op2 ! unat r) (DefaultJacobiOp2.vals_beg op2 ! unat r) h x0j
      0 (unat (DefaultJacobiOp2.numEntries op2 ! unat r)) \<longrightarrow>
    h (x0j + unat r) = Some xv \<longrightarrow>
    h (bj + unat r) = Some bv \<longrightarrow>
    h (DefaultJacobiOp2.diag op2 + unat r) = Some d \<longrightarrow>
    d \<noteq> 0 \<longrightarrow>
    h (xj + unat r) \<noteq> None \<longrightarrow>
    DefaultJacobiOp2_execute op2 h i =
      Some (h(xj + unat r \<mapsto>
        xv + DefaultJacobiOp2.damping_factor op2
             * (bv - (\<Sum>(c, v)\<leftarrow>entries2 (DefaultJacobiOp2.inds_beg op2) (DefaultJacobiOp2.vals_beg op2) (DefaultJacobiOp2.numEntries op2) h r.
                 v * the (ldo h x0j c))) / d)))"
proof (intro conjI impI)
  assume n: "DefaultJacobiOp1.numRows op1 \<noteq> 0"
    and len: "length (DefaultJacobiOp1.offsets op1) = Suc (unat (DefaultJacobiOp1.numRows op1))"
    and eqs: "r = i mod DefaultJacobiOp1.numRows op1"
      "rhs = i div DefaultJacobiOp1.numRows op1"
      "xj = col_base (DefaultJacobiOp1.x op1) (DefaultJacobiOp1.xstride op1) rhs"
      "x0j = col_base (DefaultJacobiOp1.x0 op1) (DefaultJacobiOp1.xstride op1) rhs"
      "bj = col_base (DefaultJacobiOp1.b op1) (DefaultJacobiOp1.bstride op1) rhs"
    and ro: "reads_ok (DefaultJacobiOp1.inds op1) (DefaultJacobiOp1.vals op1) h x0j
      (unat (DefaultJacobiOp1.offsets op1 ! unat r))
      (unat (DefaultJacobiOp1.offsets op1 ! unat (r + 1)))"
    and sl: "h (x0j + unat r) = Some xv"
      "h (bj + unat r) = Some bv"
      "h (DefaultJacobiOp1.diag op1 + unat r) = Some d"
      "d \<noteq> 0"
    and xo: "h (xj + unat r) \<noteq> None"
  from row_in_range[OF n len, of i] ro eqs(1)
  have rdbl: "readable1 (DefaultJacobiOp1.offsets op1) (DefaultJacobiOp1.inds op1)
           (DefaultJacobiOp1.vals op1) h x0j r"
    by (simp add: readable1_def)
  show "DefaultJacobiOp1_execute op1 h i =
      Some (h(xj + unat r \<mapsto>
        xv + DefaultJacobiOp1.damping_factor op1
             * (bv - (\<Sum>(c, v)\<leftarrow>entries1 (DefaultJacobiOp1.offsets op1) (DefaultJacobiOp1.inds op1) (DefaultJacobiOp1.vals op1) h r.
                 v * the (ldo h x0j c))) / d))"
    using n relax_step_Some[OF rdbl sl xo] by (simp add: jacobi1_char eqs[symmetric])
next
  assume n: "DefaultJacobiOp2.numRows op2 \<noteq> 0"
    and len: "length (DefaultJacobiOp2.inds_beg op2) = unat (DefaultJacobiOp2.numRows op2)"
      "length (DefaultJacobiOp2.vals_beg op2) = unat (DefaultJacobiOp2.numRows op2)"
      "length (DefaultJacobiOp2.numEntries op2) = unat (DefaultJacobiOp2.numRows op2)"
    and eqs: "r = i mod DefaultJacobiOp2.numRows op2"
      "rhs = i div DefaultJacobiOp2.numRows op2"
      "xj = col_base (DefaultJacobiOp2.x op2) (DefaultJacobiOp2.xstride op2) rhs"
      "x0j = col_base (DefaultJacobiOp2.x0 op2) (DefaultJacobiOp2.xstride op2) rhs"
      "bj = col_base (DefaultJacobiOp2.b op2) (DefaultJacobiOp2.bstride op2) rhs"
    and ro: "reads_ok (DefaultJacobiOp2.inds_beg op2 ! unat r) (DefaultJacobiOp2.vals_beg op2 ! unat r) h x0j
      0 (unat (DefaultJacobiOp2.numEntries op2 ! unat r))"
    and sl: "h (x0j + unat r) = Some xv"
      "h (bj + unat r) = Some bv"
      "h (DefaultJacobiOp2.diag op2 + unat r) = Some d"
      "d \<noteq> 0"
    and xo: "h (xj + unat r) \<noteq> None"
  from row_in_range2[OF n len(1), of i] row_in_range2[OF n len(2), of i]
    row_in_range2[OF n len(3), of i] ro eqs(1)
  have rdbl: "readable2 (DefaultJacobiOp2.inds_beg op2) (DefaultJacobiOp2.vals_beg op2)
           (DefaultJacobiOp2.numEntries op2) h x0j r"
    by (simp add: readable2_def)
  show "DefaultJacobiOp2_execute op2 h i =
      Some (h(xj + unat r \<mapsto>
        xv + DefaultJacobiOp2.damping_factor op2
             * (bv - (\<Sum>(c, v)\<leftarrow>entries2 (DefaultJacobiOp2.inds_beg op2) (DefaultJacobiOp2.vals_beg op2) (DefaultJacobiOp2.numEntries op2) h r.
                 v * the (ldo h x0j c))) / d))"
    using n relax_step_Some[OF rdbl sl xo] by (simp add: jacobi2_char eqs[symmetric])
qed

theorem jacobi_update_witness:
  "DefaultJacobiOp1_execute mv_jacobi1 mv_mem 4 = Some (mv_mem(14 \<mapsto> 2 / 3)) \<and>
   DefaultJacobiOp2_execute mv_jacobi2 mv_mem 4 = Some (mv_mem(14 \<mapsto> 2 / 3))"
proof -
  note t = jacobi_update[where ?op1.0 = mv_jacobi1 and ?op2.0 = mv_jacobi2 and i = 4 and r = 1
      and rhs = 1 and xj = 13 and x0j = 19 and bj = 25 and h = mv_mem and xv = 1 and bv = 2
      and d = 3]
  have a: "DefaultJacobiOp1.numRows mv_jacobi1 \<noteq> 0"
    "length (DefaultJacobiOp1.offsets mv_jacobi1) = Suc (unat (DefaultJacobiOp1.numRows mv_jacobi1))"
    "(1 :: size_t) = (4 :: size_t) mod DefaultJacobiOp1.numRows mv_jacobi1"
    "(1 :: size_t) = (4 :: size_t) div DefaultJacobiOp1.numRows mv_jacobi1"
    "13 = col_base (DefaultJacobiOp1.x mv_jacobi1) (DefaultJacobiOp1.xstride mv_jacobi1) (1 :: size_t)"
    "19 = col_base (DefaultJacobiOp1.x0 mv_jacobi1) (DefaultJacobiOp1.xstride mv_jacobi1) (1 :: size_t)"
    "25 = col_base (DefaultJacobiOp1.b mv_jacobi1) (DefaultJacobiOp1.bstride mv_jacobi1) (1 :: size_t)"
    "reads_ok (DefaultJacobiOp1.inds mv_jacobi1) (DefaultJacobiOp1.vals mv_jacobi1) mv_mem 19
      (unat (DefaultJacobiOp1.offsets mv_jacobi1 ! unat (1 :: size_t)))
      (unat (DefaultJacobiOp1.offsets mv_jacobi1 ! unat ((1 :: size_t) + 1)))"
    "mv_mem (19 + unat (1 :: size_t)) = Some 1"
    "mv_mem (25 + unat (1 :: size_t)) = Some (2 :: rat)"
    "mv_mem (DefaultJacobiOp1.diag mv_jacobi1 + unat (1 :: size_t)) = Some (3 :: rat)"
    "(3 :: rat) \<noteq> 0"
    "mv_mem (13 + unat (1 :: size_t)) \<noteq> None"
    by code_simp+
  have b: "DefaultJacobiOp2.numRows mv_jacobi2 \<noteq> 0"
    "length (DefaultJacobiOp2.inds_beg mv_jacobi2) = unat (DefaultJacobiOp2.numRows mv_jacobi2)"
    "length (DefaultJacobiOp2.vals_beg mv_jacobi2) = unat (DefaultJacobiOp2.numRows mv_jacobi2)"
    "length (DefaultJacobiOp2.numEntries mv_jacobi2) = unat (DefaultJacobiOp2.numRows mv_jacobi2)"
    "(1 :: size_t) = (4 :: size_t) mod DefaultJacobiOp2.numRows mv_jacobi2"
    "(1 :: size_t) = (4 :: size_t) div DefaultJacobiOp2.numRows mv_jacobi2"
    "13 = col_base (DefaultJacobiOp2.x mv_jacobi2) (DefaultJacobiOp2.xstride mv_jacobi2) (1 :: size_t)"
    "19 = col_base (DefaultJacobiOp2.x0 mv_jacobi2) (DefaultJacobiOp2.xstride mv_jacobi2) (1 :: size_t)"
    "25 = col_base (DefaultJacobiOp2.b mv_jacobi2) (DefaultJacobiOp2.bstride mv_jacobi2) (1 :: size_t)"
    "reads_ok (DefaultJacobiOp2.inds_beg mv_jacobi2 ! unat (1 :: size_t)) (DefaultJacobiOp2.vals_beg mv_jacobi2 ! unat (1 :: size_t)) mv_mem 19
      0 (unat (DefaultJacobiOp2.numEntries mv_jacobi2 ! unat (1 :: size_t)))"
    "mv_mem (19 + unat (1 :: size_t)) = Some 1"
    "mv_mem (25 + unat (1 :: size_t)) = Some (2 :: rat)"
    "mv_mem (DefaultJacobiOp2.diag mv_jacobi2 + unat (1 :: size_t)) = Some (3 :: rat)"
    "(3 :: rat) \<noteq> 0"
    "mv_mem (13 + unat (1 :: size_t)) \<noteq> None"
    by code_simp+
  have v: "1 + DefaultJacobiOp1.damping_factor mv_jacobi1
       * ((2 :: rat) - (\<Sum>(c, v)\<leftarrow>entries1 (DefaultJacobiOp1.offsets mv_jacobi1) (DefaultJacobiOp1.inds mv_jacobi1) (DefaultJacobiOp1.vals mv_jacobi1) mv_mem (1 :: size_t).
                 v * the (ldo mv_mem 19 c))) / 3 = 2 / 3"
    "1 + DefaultJacobiOp2.damping_factor mv_jacobi2
       * ((2 :: rat) - (\<Sum>(c, v)\<leftarrow>entries2 (DefaultJacobiOp2.inds_beg mv_jacobi2) (DefaultJacobiOp2.vals_beg mv_jacobi2) (DefaultJacobiOp2.numEntries mv_jacobi2) mv_mem (1 :: size_t).
                 v * the (ldo mv_mem 19 c))) / 3 = 2 / 3"
    by code_simp+
  from t[THEN conjunct1, rule_format, OF a] t[THEN conjunct2, rule_format, OF b]
  show ?thesis by (simp add: v)
qed


text \<open>
  C1, as amended.  One Gauss-Seidel update of either format stores \<open>x[r,rhs] + \<omega> * tmp / d\<close>
  into \<open>x[r,rhs]\<close>, where \<open>tmp\<close> is \<open>b[r,rhs]\<close> minus the sum of \<open>v * x[c,rhs]\<close> over all the
  entries \<open>(c, v)\<close> of the row: the diagonal entry is part of the sum.
\<close>

theorem gauss_seidel_update:
  "(DefaultFineGrainHybridGaussSeidelOp1.numRows op1 \<noteq> 0 \<longrightarrow>
    length (DefaultFineGrainHybridGaussSeidelOp1.offsets op1) = Suc (unat (DefaultFineGrainHybridGaussSeidelOp1.numRows op1)) \<longrightarrow>
    r = i mod DefaultFineGrainHybridGaussSeidelOp1.numRows op1 \<longrightarrow>
    rhs = i div DefaultFineGrainHybridGaussSeidelOp1.numRows op1 \<longrightarrow>
    xj = col_base (DefaultFineGrainHybridGaussSeidelOp1.x op1) (DefaultFineGrainHybridGaussSeidelOp1.xstride op1) rhs \<longrightarrow>
    bj = col_base (DefaultFineGrainHybridGaussSeidelOp1.b op1) (DefaultFineGrainHybridGaussSeidelOp1.bstride op1) rhs \<longrightarrow>
    reads_ok (DefaultFineGrainHybridGaussSeidelOp1.inds op1) (DefaultFineGrainHybridGaussSeidelOp1.vals op1) h xj
      (unat (DefaultFineGrainHybridGaussSeidelOp1.offsets op1 ! unat r))
      (unat (DefaultFineGrainHybridGaussSeidelOp1.offsets op1 ! unat (r + 1))) \<longrightarrow>
    h (xj + unat r) = Some xv \<longrightarrow>
    h (bj + unat r) = Some bv \<longrightarrow>
    h (DefaultFineGrainHybridGaussSeidelOp1.diag op1 + unat r) = Some d \<longrightarrow>
    d \<noteq> 0 \<longrightarrow>
    DefaultFineGrainHybridGaussSeidelOp1_execute op1 h i =
      Some (h(xj + unat r \<mapsto>
        xv + DefaultFineGrainHybridGaussSeidelOp1.damping_factor op1
             * (bv - (\<Sum>(c, v)\<leftarrow>entries1 (DefaultFineGrainHybridGaussSeidelOp1.offsets op1) (DefaultFineGrainHybridGaussSeidelOp1.inds op1) (DefaultFineGrainHybridGaussSeidelOp1.vals op1) h r.
                 v * the (ldo h xj c))) / d))) \<and>
   (DefaultFineGrainHybridGaussSeidelOp2.numRows op2 \<noteq> 0 \<longrightarrow>
    length (DefaultFineGrainHybridGaussSeidelOp2.inds_beg op2) = unat (DefaultFineGrainHybridGaussSeidelOp2.numRows op2) \<longrightarrow>
    length (DefaultFineGrainHybridGaussSeidelOp2.vals_beg op2) = unat (DefaultFineGrainHybridGaussSeidelOp2.numRows op2) \<longrightarrow>
    length (DefaultFineGrainHybridGaussSeidelOp2.numEntries op2) = unat (DefaultFineGrainHybridGaussSeidelOp2.numRows op2) \<longrightarrow>
    r = i mod DefaultFineGrainHybridGaussSeidelOp2.numRows op2 \<longrightarrow>
    rhs = i div DefaultFineGrainHybridGaussSeidelOp2.numRows op2 \<longrightarrow>
    xj = col_base (DefaultFineGrainHybridGaussSeidelOp2.x op2) (DefaultFineGrainHybridGaussSeidelOp2.xstride op2) rhs \<longrightarrow>
    bj = col_base (DefaultFineGrainHybridGaussSeidelOp2.b op2) (DefaultFineGrainHybridGaussSeidelOp2.bstride op2) rhs \<longrightarrow>
    reads_ok (DefaultFineGrainHybridGaussSeidelOp2.inds_beg op2 ! unat r) (DefaultFineGrainHybridGaussSeidelOp2.vals_beg op2 ! unat r) h xj
      0 (unat (DefaultFineGrainHybridGaussSeidelOp2.numEntries op2 ! unat r)) \<longrightarrow>
    h (xj + unat r) = Some xv \<longrightarrow>
    h (bj + unat r) = Some bv \<longrightarrow>
    h (DefaultFineGrainHybridGaussSeidelOp2.diag op2 + unat r) = Some d \<longrightarrow>
    d \<noteq> 0 \<longrightarrow>
    DefaultFineGrainHybridGaussSeidelOp2_execute op2 h i =
      Some (h(xj + unat r \<mapsto>
        xv + DefaultFineGrainHybridGaussSeidelOp2.damping_factor op2
             * (bv - (\<Sum>(c, v)\<leftarrow>entries2 (DefaultFineGrainHybridGaussSeidelOp2.inds_beg op2) (DefaultFineGrainHybridGaussSeidelOp2.vals_beg op2) (DefaultFineGrainHybridGaussSeidelOp2.numEntries op2) h r.
                 v * the (ldo h xj c))) / d)))"
proof (intro conjI impI)
  assume n: "DefaultFineGrainHybridGaussSeidelOp1.numRows op1 \<noteq> 0"
    and len: "length (DefaultFineGrainHybridGaussSeidelOp1.offsets op1) = Suc (unat (DefaultFineGrainHybridGaussSeidelOp1.numRows op1))"
    and eqs: "r = i mod DefaultFineGrainHybridGaussSeidelOp1.numRows op1"
      "rhs = i div DefaultFineGrainHybridGaussSeidelOp1.numRows op1"
      "xj = col_base (DefaultFineGrainHybridGaussSeidelOp1.x op1) (DefaultFineGrainHybridGaussSeidelOp1.xstride op1) rhs"
      "bj = col_base (DefaultFineGrainHybridGaussSeidelOp1.b op1) (DefaultFineGrainHybridGaussSeidelOp1.bstride op1) rhs"
    and ro: "reads_ok (DefaultFineGrainHybridGaussSeidelOp1.inds op1) (DefaultFineGrainHybridGaussSeidelOp1.vals op1) h xj
      (unat (DefaultFineGrainHybridGaussSeidelOp1.offsets op1 ! unat r))
      (unat (DefaultFineGrainHybridGaussSeidelOp1.offsets op1 ! unat (r + 1)))"
    and sl: "h (xj + unat r) = Some xv"
      "h (bj + unat r) = Some bv"
      "h (DefaultFineGrainHybridGaussSeidelOp1.diag op1 + unat r) = Some d"
      "d \<noteq> 0"
  from row_in_range[OF n len, of i] ro eqs(1)
  have rdbl: "readable1 (DefaultFineGrainHybridGaussSeidelOp1.offsets op1) (DefaultFineGrainHybridGaussSeidelOp1.inds op1)
           (DefaultFineGrainHybridGaussSeidelOp1.vals op1) h xj r"
    by (simp add: readable1_def)
  from sl(1) have xo: "h (xj + unat r) \<noteq> None" by simp
  show "DefaultFineGrainHybridGaussSeidelOp1_execute op1 h i =
      Some (h(xj + unat r \<mapsto>
        xv + DefaultFineGrainHybridGaussSeidelOp1.damping_factor op1
             * (bv - (\<Sum>(c, v)\<leftarrow>entries1 (DefaultFineGrainHybridGaussSeidelOp1.offsets op1) (DefaultFineGrainHybridGaussSeidelOp1.inds op1) (DefaultFineGrainHybridGaussSeidelOp1.vals op1) h r.
                 v * the (ldo h xj c))) / d))"
    using n relax_step_Some[OF rdbl sl xo] by (simp add: gauss_seidel1_char eqs[symmetric])
next
  assume n: "DefaultFineGrainHybridGaussSeidelOp2.numRows op2 \<noteq> 0"
    and len: "length (DefaultFineGrainHybridGaussSeidelOp2.inds_beg op2) = unat (DefaultFineGrainHybridGaussSeidelOp2.numRows op2)"
      "length (DefaultFineGrainHybridGaussSeidelOp2.vals_beg op2) = unat (DefaultFineGrainHybridGaussSeidelOp2.numRows op2)"
      "length (DefaultFineGrainHybridGaussSeidelOp2.numEntries op2) = unat (DefaultFineGrainHybridGaussSeidelOp2.numRows op2)"
    and eqs: "r = i mod DefaultFineGrainHybridGaussSeidelOp2.numRows op2"
      "rhs = i div DefaultFineGrainHybridGaussSeidelOp2.numRows op2"
      "xj = col_base (DefaultFineGrainHybridGaussSeidelOp2.x op2) (DefaultFineGrainHybridGaussSeidelOp2.xstride op2) rhs"
      "bj = col_base (DefaultFineGrainHybridGaussSeidelOp2.b op2) (DefaultFineGrainHybridGaussSeidelOp2.bstride op2) rhs"
    and ro: "reads_ok (DefaultFineGrainHybridGaussSeidelOp2.inds_beg op2 ! unat r) (DefaultFineGrainHybridGaussSeidelOp2.vals_beg op2 ! unat r) h xj
      0 (unat (DefaultFineGrainHybridGaussSeidelOp2.numEntries op2 ! unat r))"
    and sl: "h (xj + unat r) = Some xv"
      "h (bj + unat r) = Some bv"
      "h (DefaultFineGrainHybridGaussSeidelOp2.diag op2 + unat r) = Some d"
      "d \<noteq> 0"
  from row_in_range2[OF n len(1), of i] row_in_range2[OF n len(2), of i]
    row_in_range2[OF n len(3), of i] ro eqs(1)
  have rdbl: "readable2 (DefaultFineGrainHybridGaussSeidelOp2.inds_beg op2) (DefaultFineGrainHybridGaussSeidelOp2.vals_beg op2)
           (DefaultFineGrainHybridGaussSeidelOp2.numEntries op2) h xj r"
    by (simp add: readable2_def)
  from sl(1) have xo: "h (xj + unat r) \<noteq> None" by simp
  show "DefaultFineGrainHybridGaussSeidelOp2_execute op2 h i =
      Some (h(xj + unat r \<mapsto>
        xv + DefaultFineGrainHybridGaussSeidelOp2.damping_factor op2
             * (bv - (\<Sum>(c, v)\<leftarrow>entries2 (DefaultFineGrainHybridGaussSeidelOp2.inds_beg op2) (DefaultFineGrainHybridGaussSeidelOp2.vals_beg op2) (DefaultFineGrainHybridGaussSeidelOp2.numEntries op2) h r.
                 v * the (ldo h xj c))) / d))"
    using n relax_step_Some[OF rdbl sl xo] by (simp add: gauss_seidel2_char eqs[symmetric])
qed

theorem gauss_seidel_update_witness:
  "DefaultFineGrainHybridGaussSeidelOp1_execute mv_gs1 mv_mem 4 = Some (mv_mem(14 \<mapsto> - (1 / 3))) \<and>
   DefaultFineGrainHybridGaussSeidelOp2_execute mv_gs2 mv_mem 4 = Some (mv_mem(14 \<mapsto> - (1 / 3)))"
proof -
  note t = gauss_seidel_update[where ?op1.0 = mv_gs1 and ?op2.0 = mv_gs2 and i = 4 and r = 1
      and rhs = 1 and xj = 13 and bj = 25 and h = mv_mem and xv = 5 and bv = 2
      and d = 3]
  have a: "DefaultFineGrainHybridGaussSeidelOp1.numRows mv_gs1 \<noteq> 0"
    "length (DefaultFineGrainHybridGaussSeidelOp1.offsets mv_gs1) = Suc (unat (DefaultFineGrainHybridGaussSeidelOp1.numRows mv_gs1))"
    "(1 :: size_t) = (4 :: size_t) mod DefaultFineGrainHybridGaussSeidelOp1.numRows mv_gs1"
    "(1 :: size_t) = (4 :: size_t) div DefaultFineGrainHybridGaussSeidelOp1.numRows mv_gs1"
    "13 = col_base (DefaultFineGrainHybridGaussSeidelOp1.x mv_gs1) (DefaultFineGrainHybridGaussSeidelOp1.xstride mv_gs1) (1 :: size_t)"
    "25 = col_base (DefaultFineGrainHybridGaussSeidelOp1.b mv_gs1) (DefaultFineGrainHybridGaussSeidelOp1.bstride mv_gs1) (1 :: size_t)"
    "reads_ok (DefaultFineGrainHybridGaussSeidelOp1.inds mv_gs1) (DefaultFineGrainHybridGaussSeidelOp1.vals mv_gs1) mv_mem 13
      (unat (DefaultFineGrainHybridGaussSeidelOp1.offsets mv_gs1 ! unat (1 :: size_t)))
      (unat (DefaultFineGrainHybridGaussSeidelOp1.offsets mv_gs1 ! unat ((1 :: size_t) + 1)))"
    "mv_mem (13 + unat (1 :: size_t)) = Some 5"
    "mv_mem (25 + unat (1 :: size_t)) = Some (2 :: rat)"
    "mv_mem (DefaultFineGrainHybridGaussSeidelOp1.diag mv_gs1 + unat (1 :: size_t)) = Some (3 :: rat)"
    "(3 :: rat) \<noteq> 0"
    by code_simp+
  have b: "DefaultFineGrainHybridGaussSeidelOp2.numRows mv_gs2 \<noteq> 0"
    "length (DefaultFineGrainHybridGaussSeidelOp2.inds_beg mv_gs2) = unat (DefaultFineGrainHybridGaussSeidelOp2.numRows mv_gs2)"
    "length (DefaultFineGrainHybridGaussSeidelOp2.vals_beg mv_gs2) = unat (DefaultFineGrainHybridGaussSeidelOp2.numRows mv_gs2)"
    "length (DefaultFineGrainHybridGaussSeidelOp2.numEntries mv_gs2) = unat (DefaultFineGrainHybridGaussSeidelOp2.numRows mv_gs2)"
    "(1 :: size_t) = (4 :: size_t) mod DefaultFineGrainHybridGaussSeidelOp2.numRows mv_gs2"
    "(1 :: size_t) = (4 :: size_t) div DefaultFineGrainHybridGaussSeidelOp2.numRows mv_gs2"
    "13 = col_base (DefaultFineGrainHybridGaussSeidelOp2.x mv_gs2) (DefaultFineGrainHybridGaussSeidelOp2.xstride mv_gs2) (1 :: size_t)"
    "25 = col_base (DefaultFineGrainHybridGaussSeidelOp2.b mv_gs2) (DefaultFineGrainHybridGaussSeidelOp2.bstride mv_gs2) (1 :: size_t)"
    "reads_ok (DefaultFineGrainHybridGaussSeidelOp2.inds_beg mv_gs2 ! unat (1 :: size_t)) (DefaultFineGrainHybridGaussSeidelOp2.vals_beg mv_gs2 ! unat (1 :: size_t)) mv_mem 13
      0 (unat (DefaultFineGrainHybridGaussSeidelOp2.numEntries mv_gs2 ! unat (1 :: size_t)))"
    "mv_mem (13 + unat (1 :: size_t)) = Some 5"
    "mv_mem (25 + unat (1 :: size_t)) = Some (2 :: rat)"
    "mv_mem (DefaultFineGrainHybridGaussSeidelOp2.diag mv_gs2 + unat (1 :: size_t)) = Some (3 :: rat)"
    "(3 :: rat) \<noteq> 0"
    by code_simp+
  have v: "5 + DefaultFineGrainHybridGaussSeidelOp1.damping_factor mv_gs1
       * ((2 :: rat) - (\<Sum>(c, v)\<leftarrow>entries1 (DefaultFineGrainHybridGaussSeidelOp1.offsets mv_gs1) (DefaultFineGrainHybridGaussSeidelOp1.inds mv_gs1) (DefaultFineGrainHybridGaussSeidelOp1.vals mv_gs1) mv_mem (1 :: size_t).
                 v * the (ldo mv_mem 13 c))) / 3 = - (1 / 3)"
    "5 + DefaultFineGrainHybridGaussSeidelOp2.damping_factor mv_gs2
       * ((2 :: rat) - (\<Sum>(c, v)\<leftarrow>entries2 (DefaultFineGrainHybridGaussSeidelOp2.inds_beg mv_gs2) (DefaultFineGrainHybridGaussSeidelOp2.vals_beg mv_gs2) (DefaultFineGrainHybridGaussSeidelOp2.numEntries mv_gs2) mv_mem (1 :: size_t).
                 v * the (ldo mv_mem 13 c))) / 3 = - (1 / 3)"
    by code_simp+
  from t[THEN conjunct1, rule_format, OF a] t[THEN conjunct2, rule_format, OF b]
  show ?thesis by (simp add: v)
qed


text \<open>
  C1, as stated, fails: on the first row \<open>[(0,2),(1,5)]\<close> with \<open>x = [1,1,1]\<close>, \<open>b[0] = 1\<close>,
  \<open>diag[0] = 2\<close> and \<open>\<omega> = 1\<close> both kernels store \<open>1 + (1 - 2 - 5) / 2 = -2\<close>, while the sum
  without the diagonal entry gives \<open>1 + (1 - 5) / 2 = -1\<close>.
\<close>

theorem gauss_seidel_excluding_diagonal_counterexample:
  "peek (DefaultFineGrainHybridGaussSeidelOp1_execute mv_gs1 mv_mem 0) 10 = Some (- 2) \<and>
   spec_gauss_seidel_value mv_mem
     (entries1 (DefaultFineGrainHybridGaussSeidelOp1.offsets mv_gs1)
        (DefaultFineGrainHybridGaussSeidelOp1.inds mv_gs1)
        (DefaultFineGrainHybridGaussSeidelOp1.vals mv_gs1) mv_mem 0)
     10 22 7 (DefaultFineGrainHybridGaussSeidelOp1.damping_factor mv_gs1) 0 = - 1 \<and>
   peek (DefaultFineGrainHybridGaussSeidelOp2_execute mv_gs2 mv_mem 0) 10 = Some (- 2) \<and>
   spec_gauss_seidel_value mv_mem
     (entries2 (DefaultFineGrainHybridGaussSeidelOp2.inds_beg mv_gs2)
        (DefaultFineGrainHybridGaussSeidelOp2.vals_beg mv_gs2)
        (DefaultFineGrainHybridGaussSeidelOp2.numEntries mv_gs2) mv_mem 0)
     10 22 7 (DefaultFineGrainHybridGaussSeidelOp2.damping_factor mv_gs2) 0 = - 1"
  by code_simp





text \<open>
  C10.  Whenever a Jacobi update of either format returns, the value it has stored into
  \<open>x[r,rhs]\<close> was computed from \<open>x0\<close> read in the column at \<open>x0 + rhs * xstride\<close>, the stride
  of \<open>x\<close>, and from \<open>b\<close> read in the column at \<open>b + rhs * bstride\<close>.
\<close>

theorem jacobi_x0_stride:
  "(DefaultJacobiOp1_execute op1 h i = Some h' \<longrightarrow>
    r = i mod DefaultJacobiOp1.numRows op1 \<longrightarrow>
    rhs = i div DefaultJacobiOp1.numRows op1 \<longrightarrow>
    x0j = col_base (DefaultJacobiOp1.x0 op1) (DefaultJacobiOp1.xstride op1) rhs \<longrightarrow>
    bj = col_base (DefaultJacobiOp1.b op1) (DefaultJacobiOp1.bstride op1) rhs \<longrightarrow>
    h' (col_base (DefaultJacobiOp1.x op1) (DefaultJacobiOp1.xstride op1) rhs + unat r) =
      Some (the (h (x0j + unat r)) + DefaultJacobiOp1.damping_factor op1
             * (the (h (bj + unat r)) - (\<Sum>(c, v)\<leftarrow>entries1 (DefaultJacobiOp1.offsets op1) (DefaultJacobiOp1.inds op1) (DefaultJacobiOp1.vals op1) h r.
                 v * the (ldo h x0j c)))
               / the (h (DefaultJacobiOp1.diag op1 + unat r)))) \<and>
   (DefaultJacobiOp2_execute op2 h i = Some h' \<longrightarrow>
    r = i mod DefaultJacobiOp2.numRows op2 \<longrightarrow>
    rhs = i div DefaultJacobiOp2.numRows op2 \<longrightarrow>
    x0j = col_base (DefaultJacobiOp2.x0 op2) (DefaultJacobiOp2.xstride op2) rhs \<longrightarrow>
    bj = col_base (DefaultJacobiOp2.b op2) (DefaultJacobiOp2.bstride op2) rhs \<longrightarrow>
    h' (col_base (DefaultJacobiOp2.x op2) (DefaultJacobiOp2.xstride op2) rhs + unat r) =
      Some (the (h (x0j + unat r)) + DefaultJacobiOp2.damping_factor op2
             * (the (h (bj + unat r)) - (\<Sum>(c, v)\<leftarrow>entries2 (DefaultJacobiOp2.inds_beg op2) (DefaultJacobiOp2.vals_beg op2) (DefaultJacobiOp2.numEntries op2) h r.
                 v * the (ldo h x0j c)))
               / the (h (DefaultJacobiOp2.diag op2 + unat r))))"
  by (auto simp: jacobi1_char jacobi2_char relax_step_def dot_def split: if_splits)

theorem jacobi_x0_stride_witness:
  "peek (DefaultJacobiOp1_execute mv_jacobi1 mv_mem 4) 14 = Some (2 / 3) \<and>
   peek (DefaultJacobiOp2_execute mv_jacobi2 mv_mem 4) 14 = Some (2 / 3)"
proof -
  note t = jacobi_x0_stride[where ?op1.0 = mv_jacobi1 and ?op2.0 = mv_jacobi2 and i = 4 and r = 1
      and rhs = 1 and x0j = 19 and bj = 25 and h = mv_mem]
  have e: "DefaultJacobiOp1_execute mv_jacobi1 mv_mem 4 \<noteq> None"
    "DefaultJacobiOp2_execute mv_jacobi2 mv_mem 4 \<noteq> None"
    by code_simp+
  have a0: "DefaultJacobiOp1_execute mv_jacobi1 mv_mem 4 = Some (the (DefaultJacobiOp1_execute mv_jacobi1 mv_mem 4))"
    "DefaultJacobiOp2_execute mv_jacobi2 mv_mem 4 = Some (the (DefaultJacobiOp2_execute mv_jacobi2 mv_mem 4))"
    using e by auto
  have a: "(1 :: size_t) = 4 mod DefaultJacobiOp1.numRows mv_jacobi1"
    "(1 :: size_t) = 4 div DefaultJacobiOp1.numRows mv_jacobi1"
    "19 = col_base (DefaultJacobiOp1.x0 mv_jacobi1) (DefaultJacobiOp1.xstride mv_jacobi1) 1"
    "25 = col_base (DefaultJacobiOp1.b mv_jacobi1) (DefaultJacobiOp1.bstride mv_jacobi1) 1"
    by code_simp+
  have b: "(1 :: size_t) = 4 mod DefaultJacobiOp2.numRows mv_jacobi2"
    "(1 :: size_t) = 4 div DefaultJacobiOp2.numRows mv_jacobi2"
    "19 = col_base (DefaultJacobiOp2.x0 mv_jacobi2) (DefaultJacobiOp2.xstride mv_jacobi2) 1"
    "25 = col_base (DefaultJacobiOp2.b mv_jacobi2) (DefaultJacobiOp2.bstride mv_jacobi2) 1"
    by code_simp+
  have v: "the (mv_mem (19 + unat (1 :: size_t))) + DefaultJacobiOp1.damping_factor mv_jacobi1
             * (the (mv_mem (25 + unat (1 :: size_t))) - (\<Sum>(c, v)\<leftarrow>entries1 (DefaultJacobiOp1.offsets mv_jacobi1) (DefaultJacobiOp1.inds mv_jacobi1) (DefaultJacobiOp1.vals mv_jacobi1) mv_mem (1 :: size_t).
                 v * the (ldo mv_mem 19 c)))
               / the (mv_mem (DefaultJacobiOp1.diag mv_jacobi1 + unat (1 :: size_t))) = 2 / 3"
    "the (mv_mem (19 + unat (1 :: size_t))) + DefaultJacobiOp2.damping_factor mv_jacobi2
             * (the (mv_mem (25 + unat (1 :: size_t))) - (\<Sum>(c, v)\<leftarrow>entries2 (DefaultJacobiOp2.inds_beg mv_jacobi2) (DefaultJacobiOp2.vals_beg mv_jacobi2) (DefaultJacobiOp2.numEntries mv_jacobi2) mv_mem (1 :: size_t).
                 v * the (ldo mv_mem 19 c)))
               / the (mv_mem (DefaultJacobiOp2.diag mv_jacobi2 + unat (1 :: size_t))) = 2 / 3"
    by code_simp+
  have c: "col_base (DefaultJacobiOp1.x mv_jacobi1) (DefaultJacobiOp1.xstride mv_jacobi1) 1
              + unat (1 :: size_t) = 14"
    "col_base (DefaultJacobiOp2.x mv_jacobi2) (DefaultJacobiOp2.xstride mv_jacobi2) 1
              + unat (1 :: size_t) = 14"
    by code_simp+
  from t[THEN conjunct1, rule_format, OF a0(1) a, unfolded v c]
    t[THEN conjunct2, rule_format, OF a0(2) b, unfolded v c] e
  show ?thesis by (auto simp: peek_def)
qed


text \<open>
  C9.  A Jacobi update at the flat index \<open>i\<close> that returns has changed no address of the
  store other than the slot of \<open>x\<close> at \<open>(i div numRows) * xstride + i mod numRows\<close>, and an
  extractor call for the row \<open>r\<close> none other than \<open>diag[r]\<close>: whatever lies elsewhere (\<open>x0\<close>,
  \<open>b\<close>, \<open>diag\<close>, the values of the matrix, the other slots of \<open>x\<close>) is as before; the index
  arrays of the matrix are no part of the store a kernel returns.  With a stride of at
  least \<open>numRows\<close> and column offsets that do not overflow, distinct flat indices own
  distinct slots.
\<close>

theorem per_index_frame:
  "(DefaultJacobiOp1_execute op1 h i = Some h' \<longrightarrow>
      (\<forall>a. a \<noteq> col_base (DefaultJacobiOp1.x op1) (DefaultJacobiOp1.xstride op1)
                   (i div DefaultJacobiOp1.numRows op1) + unat (i mod DefaultJacobiOp1.numRows op1)
           \<longrightarrow> h' a = h a)) \<and>
   (DefaultJacobiOp2_execute op2 h i = Some h' \<longrightarrow>
      (\<forall>a. a \<noteq> col_base (DefaultJacobiOp2.x op2) (DefaultJacobiOp2.xstride op2)
                   (i div DefaultJacobiOp2.numRows op2) + unat (i mod DefaultJacobiOp2.numRows op2)
           \<longrightarrow> h' a = h a)) \<and>
   (ExtractDiagonalOp1_execute e1 h r = Some h' \<longrightarrow>
      (\<forall>a. a \<noteq> ExtractDiagonalOp1.diag e1 + unat r \<longrightarrow> h' a = h a)) \<and>
   (ExtractDiagonalOp2_execute e2 h r = Some h' \<longrightarrow>
      (\<forall>a. a \<noteq> ExtractDiagonalOp2.diag e2 + unat r \<longrightarrow> h' a = h a)) \<and>
   (n \<noteq> 0 \<longrightarrow> n \<le> s \<longrightarrow> i \<noteq> j \<longrightarrow>
    unat (i div n) * unat s < 2 ^ 64 \<longrightarrow> unat (j div n) * unat s < 2 ^ 64 \<longrightarrow>
      col_base xb s (i div n) + unat (i mod n) \<noteq> col_base xb s (j div n) + unat (j mod n))"
proof (intro conjI impI allI)
  fix a
  assume "DefaultJacobiOp1_execute op1 h i = Some h'"
    and "a \<noteq> col_base (DefaultJacobiOp1.x op1) (DefaultJacobiOp1.xstride op1)
                   (i div DefaultJacobiOp1.numRows op1) + unat (i mod DefaultJacobiOp1.numRows op1)"
  then show "h' a = h a"
    by (auto simp: jacobi1_char split: if_splits dest: relax_step_frame)
next
  fix a
  assume "DefaultJacobiOp2_execute op2 h i = Some h'"
    and "a \<noteq> col_base (DefaultJacobiOp2.x op2) (DefaultJacobiOp2.xstride op2)
                   (i div DefaultJacobiOp2.numRows op2) + unat (i mod DefaultJacobiOp2.numRows op2)"
  then show "h' a = h a"
    by (auto simp: jacobi2_char split: if_splits dest: relax_step_frame)
next
  fix a
  assume "ExtractDiagonalOp1_execute e1 h r = Some h'" and "a \<noteq> ExtractDiagonalOp1.diag e1 + unat r"
  then show "h' a = h a"
    by (auto simp: ExtractDiagonalOp1_execute_def split: option.splits dest: extract_loop1_frame)
next
  fix a
  assume "ExtractDiagonalOp2_execute e2 h r = Some h'" and "a \<noteq> ExtractDiagonalOp2.diag e2 + unat r"
  then show "h' a = h a"
    by (auto simp: ExtractDiagonalOp2_execute_def split: option.splits dest: extract_loop2_frame)
next
  assume "n \<noteq> 0" "n \<le> s" "i \<noteq> j" "unat (i div n) * unat s < 2 ^ 64"
    "unat (j div n) * unat s < 2 ^ 64"
  then show "col_base xb s (i div n) + unat (i mod n) \<noteq> col_base xb s (j div n) + unat (j mod n)"
    by (rule slot_distinct)
qed


theorem per_index_frame_witness:
  "peek (DefaultJacobiOp1_execute mv_jacobi1 mv_mem 4) 17 = mv_mem 17 \<and>
   peek (DefaultJacobiOp2_execute mv_jacobi2 mv_mem 4) 17 = mv_mem 17 \<and>
   peek (ExtractDiagonalOp1_execute scenario_extract1 scenario_mem 1) 3 = scenario_mem 3 \<and>
   peek (ExtractDiagonalOp2_execute scenario_extract2 scenario_mem 1) 3 = scenario_mem 3 \<and>
   col_base 10 3 (1 div 3) + unat ((1 :: size_t) mod 3)
     \<noteq> col_base 10 3 (4 div 3) + unat ((4 :: size_t) mod 3)"
proof -
  have e: "DefaultJacobiOp1_execute mv_jacobi1 mv_mem 4 \<noteq> None"
    "DefaultJacobiOp2_execute mv_jacobi2 mv_mem 4 \<noteq> None"
    "ExtractDiagonalOp1_execute scenario_extract1 scenario_mem 1 \<noteq> None"
    "ExtractDiagonalOp2_execute scenario_extract2 scenario_mem 1 \<noteq> None"
    by code_simp+
  then have s: "DefaultJacobiOp1_execute mv_jacobi1 mv_mem 4
                  = Some (the (DefaultJacobiOp1_execute mv_jacobi1 mv_mem 4))"
    "DefaultJacobiOp2_execute mv_jacobi2 mv_mem 4
                  = Some (the (DefaultJacobiOp2_execute mv_jacobi2 mv_mem 4))"
    "ExtractDiagonalOp1_execute scenario_extract1 scenario_mem 1
                  = Some (the (ExtractDiagonalOp1_execute scenario_extract1 scenario_mem 1))"
    "ExtractDiagonalOp2_execute scenario_extract2 scenario_mem 1
                  = Some (the (ExtractDiagonalOp2_execute scenario_extract2 scenario_mem 1))"
    by auto
  have a: "17 \<noteq> col_base (DefaultJacobiOp1.x mv_jacobi1) (DefaultJacobiOp1.xstride mv_jacobi1)
                   (4 div DefaultJacobiOp1.numRows mv_jacobi1)
                 + unat ((4 :: size_t) mod DefaultJacobiOp1.numRows mv_jacobi1)"
    "17 \<noteq> col_base (DefaultJacobiOp2.x mv_jacobi2) (DefaultJacobiOp2.xstride mv_jacobi2)
                   (4 div DefaultJacobiOp2.numRows mv_jacobi2)
                 + unat ((4 :: size_t) mod DefaultJacobiOp2.numRows mv_jacobi2)"
    "3 \<noteq> ExtractDiagonalOp1.diag scenario_extract1 + unat (1 :: size_t)"
    "3 \<noteq> ExtractDiagonalOp2.diag scenario_extract2 + unat (1 :: size_t)"
    by code_simp+
  have b: "(3 :: size_t) \<noteq> 0" "(3 :: size_t) \<le> 3" "(1 :: size_t) \<noteq> 4"
    "unat ((1 :: size_t) div 3) * unat (3 :: size_t) < 2 ^ 64"
    "unat ((4 :: size_t) div 3) * unat (3 :: size_t) < 2 ^ 64"
    by simp_all
  note f1 = per_index_frame[where ?op1.0 = mv_jacobi1 and h = mv_mem and i = 4
      and h' = "the (DefaultJacobiOp1_execute mv_jacobi1 mv_mem 4)",
      THEN conjunct1, rule_format, OF s(1) a(1)]
  note f2 = per_index_frame[where ?op2.0 = mv_jacobi2 and h = mv_mem and i = 4
      and h' = "the (DefaultJacobiOp2_execute mv_jacobi2 mv_mem 4)",
      THEN conjunct2, THEN conjunct1, rule_format, OF s(2) a(2)]
  note f3 = per_index_frame[where ?e1.0 = scenario_extract1 and h = scenario_mem and r = 1
      and h' = "the (ExtractDiagonalOp1_execute scenario_extract1 scenario_mem 1)",
      THEN conjunct2, THEN conjunct2, THEN conjunct1, rule_format, OF s(3) a(3)]
  note f4 = per_index_frame[where ?e2.0 = scenario_extract2 and h = scenario_mem and r = 1
      and h' = "the (ExtractDiagonalOp2_execute scenario_extract2 scenario_mem 1)",
      THEN conjunct2, THEN conjunct2, THEN conjunct2, THEN conjunct1, rule_format, OF s(4) a(4)]
  note f5 = per_index_frame[where n = 3 and s = 3 and i = 1 and j = 4 and xb = 10,
      THEN conjunct2, THEN conjunct2, THEN conjunct2, THEN conjunct2, rule_format, OF b]
  from f1 f2 f3 f4 f5 e show ?thesis by (auto simp: peek_def)
qed


text \<open>
  C6.  On the 3 by 3 scenario the extractor of either format leaves \<open>diag = [2, 3, 4]\<close>, and
  one Jacobi sweep over the flat indices 0, 1, 2 with \<open>b = [1,1,1]\<close>, \<open>x0 = [0,0,0]\<close> and
  \<open>\<omega> = 1\<close> leaves \<open>x = [1/2, 1/3, 1/4]\<close>.
\<close>

theorem scenario_extract_then_jacobi:
  "map (peek (sweep (ExtractDiagonalOp1_execute scenario_extract1) (flat_range 3) scenario_mem))
     [7, 8, 9] = [Some 2, Some 3, Some 4] \<and>
   map (peek (Option.bind
               (sweep (ExtractDiagonalOp1_execute scenario_extract1) (flat_range 3) scenario_mem)
               (sweep (DefaultJacobiOp1_execute scenario_jacobi1) (flat_range 3))))
     [10, 11, 12] = [Some (1 / 2), Some (1 / 3), Some (1 / 4)] \<and>
   map (peek (sweep (ExtractDiagonalOp2_execute scenario_extract2) (flat_range 3) scenario_mem))
     [7, 8, 9] = [Some 2, Some 3, Some 4] \<and>
   map (peek (Option.bind
               (sweep (ExtractDiagonalOp2_execute scenario_extract2) (flat_range 3) scenario_mem)
               (sweep (DefaultJacobiOp2_execute scenario_jacobi2) (flat_range 3))))
     [10, 11, 12] = [Some (1 / 2), Some (1 / 3), Some (1 / 4)]"
  by code_simp


text \<open>
  C8.  One Jacobi sweep over the flat range \<open>[0, numRows * numRHS)\<close> is the same as \<open>numRHS\<close>
  single-column sweeps over \<open>[0, numRows)\<close>, run one after the other for the columns
  \<open>0, 1, \<dots>\<close> with the bases of \<open>x\<close>, \<open>x0\<close> and \<open>b\<close> moved to the column: both leave the same
  store, or both are undefined.  The flat range fits \<^verbatim>\<open>size_t\<close>.
\<close>

theorem jacobi_multivector_sweep:
  "(unat (DefaultJacobiOp1.numRows op1) * numRHS \<le> 2 ^ 64 \<longrightarrow>
      sweep (DefaultJacobiOp1_execute op1)
        (flat_range (unat (DefaultJacobiOp1.numRows op1) * numRHS)) h
      = column_sweeps (\<lambda>j. DefaultJacobiOp1_execute (column_op1 op1 j))
          (unat (DefaultJacobiOp1.numRows op1)) (flat_range numRHS) h) \<and>
   (unat (DefaultJacobiOp2.numRows op2) * numRHS \<le> 2 ^ 64 \<longrightarrow>
      sweep (DefaultJacobiOp2_execute op2)
        (flat_range (unat (DefaultJacobiOp2.numRows op2) * numRHS)) h
      = column_sweeps (\<lambda>j. DefaultJacobiOp2_execute (column_op2 op2 j))
          (unat (DefaultJacobiOp2.numRows op2)) (flat_range numRHS) h)"
proof (intro conjI impI)
  assume b: "unat (DefaultJacobiOp1.numRows op1) * numRHS \<le> 2 ^ 64"
  show "sweep (DefaultJacobiOp1_execute op1)
        (flat_range (unat (DefaultJacobiOp1.numRows op1) * numRHS)) h
      = column_sweeps (\<lambda>j. DefaultJacobiOp1_execute (column_op1 op1 j))
          (unat (DefaultJacobiOp1.numRows op1)) (flat_range numRHS) h"
    by (rule sweep_columns) (rule jacobi1_column, assumption, rule block_bound[OF b])
next
  assume b: "unat (DefaultJacobiOp2.numRows op2) * numRHS \<le> 2 ^ 64"
  show "sweep (DefaultJacobiOp2_execute op2)
        (flat_range (unat (DefaultJacobiOp2.numRows op2) * numRHS)) h
      = column_sweeps (\<lambda>j. DefaultJacobiOp2_execute (column_op2 op2 j))
          (unat (DefaultJacobiOp2.numRows op2)) (flat_range numRHS) h"
    by (rule sweep_columns) (rule jacobi2_column, assumption, rule block_bound[OF b])
qed


theorem jacobi_multivector_sweep_witness:
  "unat (DefaultJacobiOp1.numRows mv_jacobi1) * 2 \<le> 2 ^ 64 \<and>
   sweep (DefaultJacobiOp1_execute mv_jacobi1) (flat_range 6) mv_mem
     = column_sweeps (\<lambda>j. DefaultJacobiOp1_execute (column_op1 mv_jacobi1 j)) 3 (flat_range 2) mv_mem \<and>
   map (peek (sweep (DefaultJacobiOp1_execute mv_jacobi1) (flat_range 6) mv_mem))
     [10, 11, 12, 13, 14, 15]
     = [Some (- 9 / 2), Some (- 1), Some (- 1 / 4), Some (- 3 / 2), Some (2 / 3), Some (1 / 4)] \<and>
   unat (DefaultJacobiOp2.numRows mv_jacobi2) * 2 \<le> 2 ^ 64 \<and>
   sweep (DefaultJacobiOp2_execute mv_jacobi2) (flat_range 6) mv_mem
     = column_sweeps (\<lambda>j. DefaultJacobiOp2_execute (column_op2 mv_jacobi2 j)) 3 (flat_range 2) mv_mem \<and>
   map (peek (sweep (DefaultJacobiOp2_execute mv_jacobi2) (flat_range 6) mv_mem))
     [10, 11, 12, 13, 14, 15]
     = [Some (- 9 / 2), Some (- 1), Some (- 1 / 4), Some (- 3 / 2), Some (2 / 3), Some (1 / 4)]"
proof -
  have n: "unat (DefaultJacobiOp1.numRows mv_jacobi1) = 3"
    "unat (DefaultJacobiOp2.numRows mv_jacobi2) = 3"
    by (simp_all add: mv_jacobi1_def mv_jacobi2_def)
  have b: "unat (DefaultJacobiOp1.numRows mv_jacobi1) * 2 \<le> 2 ^ 64"
    "unat (DefaultJacobiOp2.numRows mv_jacobi2) * 2 \<le> 2 ^ 64"
    by (simp_all add: n)
  note t = jacobi_multivector_sweep[where ?op1.0 = mv_jacobi1 and ?op2.0 = mv_jacobi2
      and numRHS = 2 and h = mv_mem]
  have v: "map (peek (sweep (DefaultJacobiOp1_execute mv_jacobi1) (flat_range 6) mv_mem))
     [10, 11, 12, 13, 14, 15]
     = [Some (- 9 / 2), Some (- 1), Some (- 1 / 4), Some (- 3 / 2), Some (2 / 3), Some (1 / 4)]"
    "map (peek (sweep (DefaultJacobiOp2_execute mv_jacobi2) (flat_range 6) mv_mem))
     [10, 11, 12, 13, 14, 15]
     = [Some (- 9 / 2), Some (- 1), Some (- 1 / 4), Some (- 3 / 2), Some (2 / 3), Some (1 / 4)]"
    by code_simp+
  from t[THEN conjunct1, rule_format, OF b(1)] t[THEN conjunct2, rule_format, OF b(2)] b v
  show ?thesis by (simp add: n)
qed


text \<open>
  C4.  Take a matrix of \<open>N\<close> rows in Format A on a store \<open>h1\<close> and in Format B on a store
  \<open>h2\<close>, every row stored and with the same sequence of entries in both, every row with an
  entry on the diagonal, the \<open>diag\<close> arrays allocated and apart from the values of the
  matrix.  Then the two extractors, run over the rows \<open>0, \<dots>, N - 1\<close>, both return, and
  leave the same value in each of the \<open>N\<close> slots of their \<open>diag\<close>.
\<close>

theorem extractors_agree:
  "N = unat (ExtractDiagonalOp1.numRows e1) \<longrightarrow>
   N = unat (ExtractDiagonalOp2.numRows e2) \<longrightarrow>
   length (ExtractDiagonalOp1.offsets e1) = Suc N \<longrightarrow>
   length (ExtractDiagonalOp2.inds_beg e2) = N \<longrightarrow>
   length (ExtractDiagonalOp2.vals_beg e2) = N \<longrightarrow>
   length (ExtractDiagonalOp2.numEntries e2) = N \<longrightarrow>
   (\<forall>r\<in>{0..<N}.
      stored (ExtractDiagonalOp1.inds e1) (ExtractDiagonalOp1.vals e1) h1
        (unat (ExtractDiagonalOp1.offsets e1 ! r)) (unat (ExtractDiagonalOp1.offsets e1 ! Suc r)) \<and>
      (\<forall>k\<in>{unat (ExtractDiagonalOp1.offsets e1 ! r)..<unat (ExtractDiagonalOp1.offsets e1 ! Suc r)}.
          ExtractDiagonalOp1.vals e1 + k < ExtractDiagonalOp1.diag e1 \<or>
          ExtractDiagonalOp1.diag e1 + N \<le> ExtractDiagonalOp1.vals e1 + k) \<and>
      h1 (ExtractDiagonalOp1.diag e1 + r) \<noteq> None \<and>
      stored (ExtractDiagonalOp2.inds_beg e2 ! r) (ExtractDiagonalOp2.vals_beg e2 ! r) h2
        0 (unat (ExtractDiagonalOp2.numEntries e2 ! r)) \<and>
      (\<forall>k\<in>{0..<unat (ExtractDiagonalOp2.numEntries e2 ! r)}.
          ExtractDiagonalOp2.vals_beg e2 ! r + k < ExtractDiagonalOp2.diag e2 \<or>
          ExtractDiagonalOp2.diag e2 + N \<le> ExtractDiagonalOp2.vals_beg e2 ! r + k) \<and>
      h2 (ExtractDiagonalOp2.diag e2 + r) \<noteq> None \<and>
      entries1 (ExtractDiagonalOp1.offsets e1) (ExtractDiagonalOp1.inds e1)
          (ExtractDiagonalOp1.vals e1) h1 (of_nat r)
        = entries2 (ExtractDiagonalOp2.inds_beg e2) (ExtractDiagonalOp2.vals_beg e2)
            (ExtractDiagonalOp2.numEntries e2) h2 (of_nat r) \<and>
      (\<exists>e\<in>set (entries1 (ExtractDiagonalOp1.offsets e1) (ExtractDiagonalOp1.inds e1)
                   (ExtractDiagonalOp1.vals e1) h1 (of_nat r)). fst e = int r)) \<longrightarrow>
   (\<exists>h1' h2'.
      sweep (ExtractDiagonalOp1_execute e1) (flat_range N) h1 = Some h1' \<and>
      sweep (ExtractDiagonalOp2_execute e2) (flat_range N) h2 = Some h2' \<and>
      (\<forall>r\<in>{0..<N}. h1' (ExtractDiagonalOp1.diag e1 + r) = h2' (ExtractDiagonalOp2.diag e2 + r) \<and>
                     h1' (ExtractDiagonalOp1.diag e1 + r) \<noteq> None))"
proof (intro impI)
  assume N1: "N = unat (ExtractDiagonalOp1.numRows e1)"
    and N2: "N = unat (ExtractDiagonalOp2.numRows e2)"
    and len1: "length (ExtractDiagonalOp1.offsets e1) = Suc N"
    and len2: "length (ExtractDiagonalOp2.inds_beg e2) = N"
      "length (ExtractDiagonalOp2.vals_beg e2) = N"
      "length (ExtractDiagonalOp2.numEntries e2) = N"
    and rows: "\<forall>r\<in>{0..<N}.
      stored (ExtractDiagonalOp1.inds e1) (ExtractDiagonalOp1.vals e1) h1
        (unat (ExtractDiagonalOp1.offsets e1 ! r)) (unat (ExtractDiagonalOp1.offsets e1 ! Suc r)) \<and>
      (\<forall>k\<in>{unat (ExtractDiagonalOp1.offsets e1 ! r)..<unat (ExtractDiagonalOp1.offsets e1 ! Suc r)}.
          ExtractDiagonalOp1.vals e1 + k < ExtractDiagonalOp1.diag e1 \<or>
          ExtractDiagonalOp1.diag e1 + N \<le> ExtractDiagonalOp1.vals e1 + k) \<and>
      h1 (ExtractDiagonalOp1.diag e1 + r) \<noteq> None \<and>
      stored (ExtractDiagonalOp2.inds_beg e2 ! r) (ExtractDiagonalOp2.vals_beg e2 ! r) h2
        0 (unat (ExtractDiagonalOp2.numEntries e2 ! r)) \<and>
      (\<forall>k\<in>{0..<unat (ExtractDiagonalOp2.numEntries e2 ! r)}.
          ExtractDiagonalOp2.vals_beg e2 ! r + k < ExtractDiagonalOp2.diag e2 \<or>
          ExtractDiagonalOp2.diag e2 + N \<le> ExtractDiagonalOp2.vals_beg e2 ! r + k) \<and>
      h2 (ExtractDiagonalOp2.diag e2 + r) \<noteq> None \<and>
      entries1 (ExtractDiagonalOp1.offsets e1) (ExtractDiagonalOp1.inds e1)
          (ExtractDiagonalOp1.vals e1) h1 (of_nat r)
        = entries2 (ExtractDiagonalOp2.inds_beg e2) (ExtractDiagonalOp2.vals_beg e2)
            (ExtractDiagonalOp2.numEntries e2) h2 (of_nat r) \<and>
      (\<exists>e\<in>set (entries1 (ExtractDiagonalOp1.offsets e1) (ExtractDiagonalOp1.inds e1)
                   (ExtractDiagonalOp1.vals e1) h1 (of_nat r)). fst e = int r)"
  let ?fd1 = "\<lambda>r. first_diag (entries1 (ExtractDiagonalOp1.offsets e1) (ExtractDiagonalOp1.inds e1)
                  (ExtractDiagonalOp1.vals e1) h1 (of_nat r)) (of_nat r :: size_t)"
  let ?fd2 = "\<lambda>r. first_diag (entries2 (ExtractDiagonalOp2.inds_beg e2) (ExtractDiagonalOp2.vals_beg e2)
            (ExtractDiagonalOp2.numEntries e2) h2 (of_nat r)) (of_nat r :: size_t)"
  have al1: "\<forall>r<N. h1 (ExtractDiagonalOp1.diag e1 + r) \<noteq> None"
    and al2: "\<forall>r<N. h2 (ExtractDiagonalOp2.diag e2 + r) \<noteq> None"
    using rows by simp_all
  have s1: "\<exists>h'. sweep (ExtractDiagonalOp1_execute e1) (flat_range N) h1 = Some h' \<and>
           (\<forall>a. a < ExtractDiagonalOp1.diag e1 \<or> ExtractDiagonalOp1.diag e1 + N \<le> a \<longrightarrow> h' a = h1 a) \<and>
           (\<forall>r<N. h' (ExtractDiagonalOp1.diag e1 + r) \<noteq> None) \<and>
           (\<forall>r<N. h' (ExtractDiagonalOp1.diag e1 + r)
               = (case ?fd1 r of None \<Rightarrow> h1 (ExtractDiagonalOp1.diag e1 + r) | Some v \<Rightarrow> Some v))"
  proof (rule slot_sweep[OF _ al1 order_refl])
    fix h :: "'a heap" and r
    assume r: "r < N"
      and fr: "\<forall>a. a < ExtractDiagonalOp1.diag e1 \<or> ExtractDiagonalOp1.diag e1 + N \<le> a \<longrightarrow> h a = h1 a"
      and al: "\<forall>r<N. h (ExtractDiagonalOp1.diag e1 + r) \<noteq> None"
    from rows r have sto: "stored (ExtractDiagonalOp1.inds e1) (ExtractDiagonalOp1.vals e1) h1
        (unat (ExtractDiagonalOp1.offsets e1 ! r)) (unat (ExtractDiagonalOp1.offsets e1 ! Suc r))"
      and sep: "\<forall>k\<in>{unat (ExtractDiagonalOp1.offsets e1 ! r)..<unat (ExtractDiagonalOp1.offsets e1 ! Suc r)}.
          ExtractDiagonalOp1.vals e1 + k < ExtractDiagonalOp1.diag e1 \<or>
          ExtractDiagonalOp1.diag e1 + N \<le> ExtractDiagonalOp1.vals e1 + k"
      by simp_all
    show "ExtractDiagonalOp1_execute e1 h (of_nat r) =
        Some (case ?fd1 r of None \<Rightarrow> h | Some v \<Rightarrow> h(ExtractDiagonalOp1.diag e1 + r \<mapsto> v))"
      using extract1_step[of e1 r h1 h, folded N1, OF len1 r sto sep fr al] .
  qed
  have s2: "\<exists>h'. sweep (ExtractDiagonalOp2_execute e2) (flat_range N) h2 = Some h' \<and>
           (\<forall>a. a < ExtractDiagonalOp2.diag e2 \<or> ExtractDiagonalOp2.diag e2 + N \<le> a \<longrightarrow> h' a = h2 a) \<and>
           (\<forall>r<N. h' (ExtractDiagonalOp2.diag e2 + r) \<noteq> None) \<and>
           (\<forall>r<N. h' (ExtractDiagonalOp2.diag e2 + r)
               = (case ?fd2 r of None \<Rightarrow> h2 (ExtractDiagonalOp2.diag e2 + r) | Some v \<Rightarrow> Some v))"
  proof (rule slot_sweep[OF _ al2 order_refl])
    fix h :: "'a heap" and r
    assume r: "r < N"
      and fr: "\<forall>a. a < ExtractDiagonalOp2.diag e2 \<or> ExtractDiagonalOp2.diag e2 + N \<le> a \<longrightarrow> h a = h2 a"
      and al: "\<forall>r<N. h (ExtractDiagonalOp2.diag e2 + r) \<noteq> None"
    from rows r have sto: "stored (ExtractDiagonalOp2.inds_beg e2 ! r) (ExtractDiagonalOp2.vals_beg e2 ! r) h2
        0 (unat (ExtractDiagonalOp2.numEntries e2 ! r))"
      and sep: "\<forall>k\<in>{0..<unat (ExtractDiagonalOp2.numEntries e2 ! r)}.
          ExtractDiagonalOp2.vals_beg e2 ! r + k < ExtractDiagonalOp2.diag e2 \<or>
          ExtractDiagonalOp2.diag e2 + N \<le> ExtractDiagonalOp2.vals_beg e2 ! r + k"
      by simp_all
    show "ExtractDiagonalOp2_execute e2 h (of_nat r) =
        Some (case ?fd2 r of None \<Rightarrow> h | Some v \<Rightarrow> h(ExtractDiagonalOp2.diag e2 + r \<mapsto> v))"
      using extract2_step[of e2 r h2 h, folded N2, OF len2 r sto sep fr al] .
  qed
  from s1 obtain h1' where sw1: "sweep (ExtractDiagonalOp1_execute e1) (flat_range N) h1 = Some h1'"
    and v1: "\<forall>r<N. h1' (ExtractDiagonalOp1.diag e1 + r)
               = (case ?fd1 r of None \<Rightarrow> h1 (ExtractDiagonalOp1.diag e1 + r) | Some v \<Rightarrow> Some v)"
    by blast
  from s2 obtain h2' where sw2: "sweep (ExtractDiagonalOp2_execute e2) (flat_range N) h2 = Some h2'"
    and v2: "\<forall>r<N. h2' (ExtractDiagonalOp2.diag e2 + r)
               = (case ?fd2 r of None \<Rightarrow> h2 (ExtractDiagonalOp2.diag e2 + r) | Some v \<Rightarrow> Some v)"
    by blast
  have "h1' (ExtractDiagonalOp1.diag e1 + r) = h2' (ExtractDiagonalOp2.diag e2 + r) \<and>
        h1' (ExtractDiagonalOp1.diag e1 + r) \<noteq> None" if r: "r \<in> {0..<N}" for r
  proof -
    from r have rN: "r < N" by simp
    from rows r have eq: "?fd1 r = ?fd2 r" by simp
    from rows r obtain e where e: "e \<in> set (entries1 (ExtractDiagonalOp1.offsets e1)
        (ExtractDiagonalOp1.inds e1) (ExtractDiagonalOp1.vals e1) h1 (of_nat r))" "fst e = int r"
      by blast
    have ur: "uint (of_nat r :: size_t) = int r"
      using row_index(1)[of r "ExtractDiagonalOp1.numRows e1", folded N1, OF rN]
      by (metis uint_nat)
    from e ur have "find (\<lambda>e. fst e = uint (of_nat r :: size_t)) (entries1 (ExtractDiagonalOp1.offsets e1)
        (ExtractDiagonalOp1.inds e1) (ExtractDiagonalOp1.vals e1) h1 (of_nat r)) \<noteq> None"
      unfolding find_None_iff ur by blast
    then obtain v where v: "?fd1 r = Some v" by (auto simp: first_diag_def)
    from v1 v2 rN v eq show ?thesis by simp
  qed
  with sw1 sw2 show "\<exists>h1' h2'.
      sweep (ExtractDiagonalOp1_execute e1) (flat_range N) h1 = Some h1' \<and>
      sweep (ExtractDiagonalOp2_execute e2) (flat_range N) h2 = Some h2' \<and>
      (\<forall>r\<in>{0..<N}. h1' (ExtractDiagonalOp1.diag e1 + r) = h2' (ExtractDiagonalOp2.diag e2 + r) \<and>
                     h1' (ExtractDiagonalOp1.diag e1 + r) \<noteq> None)"
    by blast
qed


theorem extractors_agree_witness:
  "peek (sweep (ExtractDiagonalOp1_execute scenario_extract1) (flat_range 3) scenario_mem) 7
     = peek (sweep (ExtractDiagonalOp2_execute scenario_extract2) (flat_range 3) scenario_mem) 7 \<and>
   peek (sweep (ExtractDiagonalOp1_execute scenario_extract1) (flat_range 3) scenario_mem) 7 \<noteq> None \<and>
   peek (sweep (ExtractDiagonalOp1_execute scenario_extract1) (flat_range 3) scenario_mem) 8
     = peek (sweep (ExtractDiagonalOp2_execute scenario_extract2) (flat_range 3) scenario_mem) 8 \<and>
   peek (sweep (ExtractDiagonalOp1_execute scenario_extract1) (flat_range 3) scenario_mem) 8 \<noteq> None \<and>
   peek (sweep (ExtractDiagonalOp1_execute scenario_extract1) (flat_range 3) scenario_mem) 9
     = peek (sweep (ExtractDiagonalOp2_execute scenario_extract2) (flat_range 3) scenario_mem) 9 \<and>
   peek (sweep (ExtractDiagonalOp1_execute scenario_extract1) (flat_range 3) scenario_mem) 9 \<noteq> None"
proof -
  note t = extractors_agree[where ?e1.0 = scenario_extract1 and ?e2.0 = scenario_extract2
      and ?h1.0 = scenario_mem and ?h2.0 = scenario_mem and N = 3]
  have a: "3 = unat (ExtractDiagonalOp1.numRows scenario_extract1)"
    "3 = unat (ExtractDiagonalOp2.numRows scenario_extract2)"
    "length (ExtractDiagonalOp1.offsets scenario_extract1) = Suc 3"
    "length (ExtractDiagonalOp2.inds_beg scenario_extract2) = 3"
    "length (ExtractDiagonalOp2.vals_beg scenario_extract2) = 3"
    "length (ExtractDiagonalOp2.numEntries scenario_extract2) = 3"
    by (simp_all add: scenario_extract1_def scenario_extract2_def)
  have b: "\<forall>r\<in>{0..<3}.
      stored (ExtractDiagonalOp1.inds scenario_extract1) (ExtractDiagonalOp1.vals scenario_extract1)
        scenario_mem
        (unat (ExtractDiagonalOp1.offsets scenario_extract1 ! r))
        (unat (ExtractDiagonalOp1.offsets scenario_extract1 ! Suc r)) \<and>
      (\<forall>k\<in>{unat (ExtractDiagonalOp1.offsets scenario_extract1 ! r)
               ..<unat (ExtractDiagonalOp1.offsets scenario_extract1 ! Suc r)}.
          ExtractDiagonalOp1.vals scenario_extract1 + k < ExtractDiagonalOp1.diag scenario_extract1 \<or>
          ExtractDiagonalOp1.diag scenario_extract1 + 3
            \<le> ExtractDiagonalOp1.vals scenario_extract1 + k) \<and>
      scenario_mem (ExtractDiagonalOp1.diag scenario_extract1 + r) \<noteq> None \<and>
      stored (ExtractDiagonalOp2.inds_beg scenario_extract2 ! r)
        (ExtractDiagonalOp2.vals_beg scenario_extract2 ! r) scenario_mem
        0 (unat (ExtractDiagonalOp2.numEntries scenario_extract2 ! r)) \<and>
      (\<forall>k\<in>{0..<unat (ExtractDiagonalOp2.numEntries scenario_extract2 ! r)}.
          ExtractDiagonalOp2.vals_beg scenario_extract2 ! r + k
            < ExtractDiagonalOp2.diag scenario_extract2 \<or>
          ExtractDiagonalOp2.diag scenario_extract2 + 3
            \<le> ExtractDiagonalOp2.vals_beg scenario_extract2 ! r + k) \<and>
      scenario_mem (ExtractDiagonalOp2.diag scenario_extract2 + r) \<noteq> None \<and>
      entries1 (ExtractDiagonalOp1.offsets scenario_extract1) (ExtractDiagonalOp1.inds scenario_extract1)
          (ExtractDiagonalOp1.vals scenario_extract1) scenario_mem (of_nat r)
        = entries2 (ExtractDiagonalOp2.inds_beg scenario_extract2)
            (ExtractDiagonalOp2.vals_beg scenario_extract2)
            (ExtractDiagonalOp2.numEntries scenario_extract2) scenario_mem (of_nat r) \<and>
      (\<exists>e\<in>set (entries1 (ExtractDiagonalOp1.offsets scenario_extract1)
                   (ExtractDiagonalOp1.inds scenario_extract1)
                   (ExtractDiagonalOp1.vals scenario_extract1) scenario_mem (of_nat r)).
          fst e = int r)"
    by code_simp
  have d: "ExtractDiagonalOp1.diag scenario_extract1 = 7" "ExtractDiagonalOp2.diag scenario_extract2 = 7"
    by (simp_all add: scenario_extract1_def scenario_extract2_def)
  from t[THEN mp, OF a(1), THEN mp, OF a(2), THEN mp, OF a(3), THEN mp, OF a(4),
      THEN mp, OF a(5), THEN mp, OF a(6), THEN mp, OF b]
  obtain h1' h2' where
    sw: "sweep (ExtractDiagonalOp1_execute scenario_extract1) (flat_range 3) scenario_mem = Some h1'"
      "sweep (ExtractDiagonalOp2_execute scenario_extract2) (flat_range 3) scenario_mem = Some h2'"
    and eq: "\<forall>r\<in>{0..<3}. h1' (7 + r) = h2' (7 + r) \<and> h1' (7 + r) \<noteq> None"
    unfolding d by blast
  have "(0 :: nat) \<in> {0..<3}" "(1 :: nat) \<in> {0..<3}" "(2 :: nat) \<in> {0..<3}" by simp_all
  note f = eq[rule_format, OF this(1), unfolded add_0_right]
    eq[rule_format, OF this(2)] eq[rule_format, OF this(3)]
  have s: "(7 :: nat) + 1 = 8" "(7 :: nat) + 2 = 9" by simp_all
  show ?thesis unfolding sw peek_def option.case using f[unfolded s] by blast
qed


end
